theory Spec2Isabelle
  imports Main "HOL-Library.Char_ord" "HOL-Library.List_Lexorder" "HOL-Library.Multiset"
begin

section \<open>Values and strings of the host language\<close>

text \<open>
  The resolvers of \<^verbatim>\<open>src/graphql/resolvers.ts\<close> and the REST routes of
  \<^verbatim>\<open>src/index.ts\<close> are thin wrappers around Cypher statements sent to a graph
  database.  Strings are modelled as \<^typ>\<open>string\<close>; a character stands for one code
  unit below 256, so case folding and white space are those of Latin-1.  Numbers that
  reach \<^verbatim>\<open>JSON.stringify\<close> are restricted to integers (floating point is not
  modelled).  Arguments have the types of the interface: required fields are strings,
  optional ones are a string or \<^verbatim>\<open>null\<close>, an \<^verbatim>\<open>object_value\<close> is any JSON value,
  and pagination bounds are integers.
\<close>

datatype json =
    JNull
  | JBool bool
  | JNum int
  | JStr string
  | JArr "json list"
  | JObj "(string \<times> json) list"

subsection \<open>Decimal rendering of numbers\<close>

definition digit_char :: "nat \<Rightarrow> char" where
  "digit_char d = char_of (48 + d)"

function show_nat :: "nat \<Rightarrow> string" where
  "show_nat n = (if n < 10 then [digit_char n] else show_nat (n div 10) @ [digit_char (n mod 10)])"
  by pat_completeness auto
termination
  by (relation "measure id") auto

declare show_nat.simps [simp del]

definition show_int :: "int \<Rightarrow> string" where
  "show_int i = (if i < 0 then CHR ''-'' # show_nat (nat (- i)) else show_nat (nat i))"

subsection \<open>\<^verbatim>\<open>JSON.stringify\<close>\<close>

definition hex_digit :: "nat \<Rightarrow> char" where
  "hex_digit d = (if d < 10 then char_of (48 + d) else char_of (87 + d))"

text \<open>The quoting of one character inside a JSON string literal (ECMAScript
  \<^verbatim>\<open>QuoteJSONString\<close>).\<close>

definition escape_char :: "char \<Rightarrow> string" where
  "escape_char c =
     (if c = CHR 0x22 then [CHR 0x5C, CHR 0x22]
      else if c = CHR 0x5C then [CHR 0x5C, CHR 0x5C]
      else if c = CHR 0x08 then [CHR 0x5C, CHR ''b'']
      else if c = CHR 0x0C then [CHR 0x5C, CHR ''f'']
      else if c = CHR 0x0A then [CHR 0x5C, CHR ''n'']
      else if c = CHR 0x0D then [CHR 0x5C, CHR ''r'']
      else if c = CHR 0x09 then [CHR 0x5C, CHR ''t'']
      else if (of_char c :: nat) < 32
        then [CHR 0x5C, CHR ''u'', CHR ''0'', CHR ''0'',
              hex_digit ((of_char c :: nat) div 16), hex_digit ((of_char c :: nat) mod 16)]
      else [c])"

definition quote_string :: "string \<Rightarrow> string" where
  "quote_string s = [CHR 0x22] @ concat (map escape_char s) @ [CHR 0x22]"

fun join_with :: "string \<Rightarrow> string list \<Rightarrow> string" where
  "join_with sep [] = []"
| "join_with sep [x] = x"
| "join_with sep (x # y # ys) = x @ sep @ join_with sep (y # ys)"

text \<open>The serializer, on the values of \<^typ>\<open>json\<close>.  It agrees with JavaScript for
  integers of magnitude below \<open>2^53\<close> and for objects whose keys are distinct and
  not integer-like (JavaScript lists integer-like keys first and prints larger numbers
  in exponent form).\<close>

fun JSON_stringify :: "json \<Rightarrow> string" where
  "JSON_stringify JNull = ''null''"
| "JSON_stringify (JBool b) = (if b then ''true'' else ''false'')"
| "JSON_stringify (JNum n) = show_int n"
| "JSON_stringify (JStr s) = quote_string s"
| "JSON_stringify (JArr vs) = ''['' @ join_with '','' (map JSON_stringify vs) @ '']''"
| "JSON_stringify (JObj kvs) =
     ''{'' @ join_with '','' (map (\<lambda>(k, v). quote_string k @ '':'' @ JSON_stringify v) kvs) @ ''}''"

subsection \<open>\<^verbatim>\<open>trim\<close>, \<^verbatim>\<open>split\<close>, \<^verbatim>\<open>toLower\<close>, \<^verbatim>\<open>CONTAINS\<close>\<close>

definition is_space :: "char \<Rightarrow> bool" where
  "is_space c \<longleftrightarrow> c \<in> {CHR 0x09, CHR 0x0A, CHR 0x0B, CHR 0x0C, CHR 0x0D, CHR 0x20, CHR 0xA0}"

definition trim :: "string \<Rightarrow> string" where
  "trim s = rev (dropWhile is_space (rev (dropWhile is_space s)))"

text \<open>\<^verbatim>\<open>s.split(sep)\<close> for a one-character separator: the empty string gives one
  empty piece.\<close>

fun split :: "char \<Rightarrow> string \<Rightarrow> string list" where
  "split sep [] = [[]]"
| "split sep (c # cs) =
     (if c = sep then [] # split sep cs
      else (case split sep cs of
              [] \<Rightarrow> [[c]]
            | w # ws \<Rightarrow> (c # w) # ws))"

text \<open>Lower case of one code unit: the letters \<^verbatim>\<open>A\<close> to \<^verbatim>\<open>Z\<close> and the capital
  letters of Latin-1 (\<open>0xC0\<close> to \<open>0xDE\<close> but the multiplication sign \<open>0xD7\<close>).\<close>

definition lower_char :: "char \<Rightarrow> char" where
  "lower_char c =
     (if (CHR ''A'' \<le> c \<and> c \<le> CHR ''Z'') \<or> (CHR 0xC0 \<le> c \<and> c \<le> CHR 0xDE \<and> c \<noteq> CHR 0xD7)
      then char_of ((of_char c :: nat) + 32)
      else c)"

definition toLower :: "string \<Rightarrow> string" where
  "toLower s = map lower_char s"

text \<open>Cypher's \<^verbatim>\<open>hay CONTAINS needle\<close> on strings.\<close>

fun contains :: "string \<Rightarrow> string \<Rightarrow> bool" where
  "contains [] needle = (needle = [])"
| "contains (c # cs) needle = (take (length needle) (c # cs) = needle \<or> contains cs needle)"


section \<open>The graph store behind the Query Execution Interface\<close>

text \<open>
  The persisted shape: nodes labelled \<^verbatim>\<open>Identifier\<close>, each with a \<^verbatim>\<open>value\<close>, and
  directed \<^verbatim>\<open>STATEMENT\<close> relationships carrying the statement's properties.  The
  nodes are kept as the list of their values, so that two nodes with one value are two
  entries; a relationship names its start and end node by value, which is all that the
  queries of the resolvers observe.  A property that is \<^verbatim>\<open>null\<close> is \<open>None\<close>.

  Each definition below gives the meaning of one Cypher statement of the source, quoted
  above it.  The engine is taken to be reachable and to run one statement at a time;
  the one failure it has here is the rejection of a negative \<^verbatim>\<open>SKIP\<close> or
  \<^verbatim>\<open>LIMIT\<close>.  A scan returns the relationships in the order of the list.
\<close>

record edge =
  e_id :: string
  e_subject :: string
  e_target :: string
  e_predicate :: string
  e_object_value :: string
  e_source_id :: "string option"
  e_timestamp :: string
  e_created_at :: string

record graph =
  nodes :: "string list"
  edges :: "edge list"

text \<open>A record of a result set, with the column aliases of the \<^verbatim>\<open>RETURN\<close> clause
  shared by every statement query.\<close>

record row =
  r_id :: string
  r_subject :: string
  r_predicate :: string
  r_object_value :: string
  r_source_id :: "string option"
  r_timestamp :: string
  r_created_at :: string

datatype error = QueryFailed | Thrown string

text \<open>The Cypher statements of the source, with their parameters.\<close>

datatype query =
    CountBySubject string
  | PageBySubject string int int
  | CountByPredicate string
  | PageByPredicate string int int
  | CountAll
  | PageAll int int
  | SearchQuery string
  | StatementById string
  | CreateQuery edge
  | DeleteById string
  | IngestCreateQuery edge
  | RestSearchQuery string

text \<open>\<^verbatim>\<open>RETURN s.id as id, i.value as subject, s.predicate as predicate, ...\<close>\<close>

definition return_row :: "edge \<Rightarrow> row" where
  "return_row e =
     \<lparr>r_id = e_id e, r_subject = e_subject e, r_predicate = e_predicate e,
      r_object_value = e_object_value e, r_source_id = e_source_id e,
      r_timestamp = e_timestamp e, r_created_at = e_created_at e\<rparr>"

text \<open>\<^verbatim>\<open>ORDER BY s.created_at DESC\<close>: the engine's order among equal keys is its own;
  the model fixes one, the same at every call.\<close>

definition order_by_created_at_desc :: "edge list \<Rightarrow> edge list" where
  "order_by_created_at_desc es = rev (sort_key e_created_at es)"

text \<open>\<^verbatim>\<open>SKIP $offset LIMIT $limit\<close>: the engine rejects a negative bound.\<close>

definition skip_limit :: "int \<Rightarrow> int \<Rightarrow> 'a list \<Rightarrow> error + 'a list" where
  "skip_limit offset limit xs =
     (if offset < 0 \<or> limit < 0 then Inl QueryFailed
      else Inr (take (nat limit) (drop (nat offset) xs)))"

text \<open>\<^verbatim>\<open>MATCH (i:Identifier {value: $identifier})-[s:STATEMENT]->()\<close>\<close>

definition match_subject :: "graph \<Rightarrow> string \<Rightarrow> edge list" where
  "match_subject g identifier = filter (\<lambda>e. e_subject e = identifier) (edges g)"

text \<open>\<^verbatim>\<open>MATCH ()-[s:STATEMENT {predicate: $predicate}]->()\<close>\<close>

definition match_predicate :: "graph \<Rightarrow> string \<Rightarrow> edge list" where
  "match_predicate g p = filter (\<lambda>e. e_predicate e = p) (edges g)"

text \<open>\<^verbatim>\<open>MATCH (i:Identifier)-[s:STATEMENT {id: $id}]->(t)\<close>\<close>

definition match_id :: "graph \<Rightarrow> string \<Rightarrow> edge list" where
  "match_id g i = filter (\<lambda>e. e_id e = i) (edges g)"

text \<open>\<^verbatim>\<open>RETURN count(s) as total\<close>: an aggregate gives one record, also over no match.\<close>

definition run_count :: "edge list \<Rightarrow> int list" where
  "run_count es = [int (length es)]"

definition run_page :: "edge list \<Rightarrow> int \<Rightarrow> int \<Rightarrow> error + row list" where
  "run_page es offset limit =
     (case skip_limit offset limit (order_by_created_at_desc es) of
        Inl err \<Rightarrow> Inl err
      | Inr page \<Rightarrow> Inr (map return_row page))"

text \<open>
  \<^verbatim>\<open>WHERE toLower(s.object_value) CONTAINS toLower($query)
     OR toLower(i.value) CONTAINS toLower($query) ... LIMIT 100\<close>
\<close>

definition search_match :: "string \<Rightarrow> edge \<Rightarrow> bool" where
  "search_match q e \<longleftrightarrow>
     contains (toLower (e_object_value e)) (toLower q) \<or>
     contains (toLower (e_subject e)) (toLower q)"

definition run_search :: "graph \<Rightarrow> string \<Rightarrow> row list" where
  "run_search g q = map return_row (take 100 (filter (search_match q) (edges g)))"

definition run_statement_by_id :: "graph \<Rightarrow> string \<Rightarrow> row list" where
  "run_statement_by_id g i = map return_row (match_id g i)"

text \<open>\<^verbatim>\<open>MERGE (n:Identifier {value: $v})\<close>: match every node with that value, and
  create one only when there is none.\<close>

definition merge_node :: "string \<Rightarrow> string list \<Rightarrow> string list" where
  "merge_node v ns = (if v \<in> set ns then ns else ns @ [v])"

text \<open>
  \<^verbatim>\<open>MERGE (subj:Identifier {value: $subject})
  MERGE (obj:Identifier {value: $object_value})
  CREATE (subj)-[s:STATEMENT {...}]->(obj)\<close>:
  one relationship for each pair of a matched subject node and a matched object node.
\<close>

definition run_merge_create :: "graph \<Rightarrow> edge \<Rightarrow> graph" where
  "run_merge_create g e =
     (let ns1 = merge_node (e_subject e) (nodes g);
          ns2 = merge_node (e_target e) ns1;
          matches = count_list ns1 (e_subject e) * count_list ns2 (e_target e)
      in \<lparr>nodes = ns2, edges = edges g @ replicate matches e\<rparr>)"

text \<open>\<^verbatim>\<open>MATCH ()-[s:STATEMENT {id: $id}]->() DELETE s RETURN count(s) as deleted\<close>\<close>

definition run_delete :: "graph \<Rightarrow> string \<Rightarrow> int list \<times> graph" where
  "run_delete g i =
     ([int (length (match_id g i))], g\<lparr>edges := filter (\<lambda>e. e_id e \<noteq> i) (edges g)\<rparr>)"

section \<open>The resolvers\<close>

record 'v statement =
  stmt_id :: string
  subject_identifier :: string
  predicate :: string
  object_value :: 'v
  source_id :: "string option"
  statement_timestamp :: string
  created_at :: string

text \<open>What a resolver did: the statements it sent to the backend, in order, what it
  returned or threw, and the store it left.\<close>

record 'a reply =
  issued :: "query list"
  outcome :: "error + 'a"
  store_after :: graph

text \<open>\<^verbatim>\<open>x || null\<close> on a string or \<^verbatim>\<open>null\<close>: the empty string is falsy.\<close>

definition or_null :: "string option \<Rightarrow> string option" where
  "or_null x = (case x of None \<Rightarrow> None | Some s \<Rightarrow> if s = [] then None else Some s)"

definition formatStatement :: "row \<Rightarrow> string statement" where
  "formatStatement r =
     \<lparr>stmt_id = r_id r,
      subject_identifier = r_subject r,
      predicate = r_predicate r,
      object_value = r_object_value r,
      source_id = or_null (r_source_id r),
      statement_timestamp = r_timestamp r,
      created_at = r_created_at r\<rparr>"

record page =
  statements :: "string statement list"
  totalCount :: int
  hasMore :: bool

text \<open>\<^verbatim>\<open>toNumber(countResult.records[0]?.get("total")) || 0\<close>\<close>

definition first_total :: "int list \<Rightarrow> int" where
  "first_total records = (case records of [] \<Rightarrow> 0 | n # _ \<Rightarrow> n)"

definition paginate :: "graph \<Rightarrow> query \<Rightarrow> query \<Rightarrow> edge list \<Rightarrow> int \<Rightarrow> int \<Rightarrow> page reply" where
  "paginate g count_query page_query matched limit offset =
     (let countResult = run_count matched;
          totalCount = first_total countResult
      in case run_page matched offset limit of
           Inl err \<Rightarrow> \<lparr>issued = [count_query, page_query], outcome = Inl err, store_after = g\<rparr>
         | Inr records \<Rightarrow>
             (let stmts = map formatStatement records
              in \<lparr>issued = [count_query, page_query],
                  outcome = Inr \<lparr>statements = stmts, totalCount = totalCount,
                                hasMore = offset + int (length stmts) < totalCount\<rparr>,
                  store_after = g\<rparr>))"

definition statementsBySubject :: "graph \<Rightarrow> string \<Rightarrow> int \<Rightarrow> int \<Rightarrow> page reply" where
  "statementsBySubject g identifier limit offset =
     paginate g (CountBySubject identifier) (PageBySubject identifier offset limit)
       (match_subject g identifier) limit offset"

definition statementsByPredicate :: "graph \<Rightarrow> string \<Rightarrow> int \<Rightarrow> int \<Rightarrow> page reply" where
  "statementsByPredicate g p limit offset =
     paginate g (CountByPredicate p) (PageByPredicate p offset limit)
       (match_predicate g p) limit offset"

definition paginatedStatements :: "graph \<Rightarrow> int \<Rightarrow> int \<Rightarrow> page reply" where
  "paginatedStatements g limit offset =
     paginate g CountAll (PageAll offset limit) (edges g) limit offset"

definition searchStatements :: "graph \<Rightarrow> string \<Rightarrow> string statement list reply" where
  "searchStatements g q =
     \<lparr>issued = [SearchQuery q],
      outcome = Inr (map formatStatement (run_search g q)),
      store_after = g\<rparr>"

text \<open>\<^verbatim>\<open>result.records[0] ? formatStatement(result.records[0]) : null\<close>\<close>

definition statement :: "graph \<Rightarrow> string \<Rightarrow> string statement option reply" where
  "statement g i =
     \<lparr>issued = [StatementById i],
      outcome = Inr (case run_statement_by_id g i of
                       [] \<Rightarrow> None
                     | r # _ \<Rightarrow> Some (formatStatement r)),
      store_after = g\<rparr>"


subsection \<open>Mutations\<close>

text \<open>
  The input of \<^verbatim>\<open>createStatement\<close>.  An optional field that is absent or
  \<^verbatim>\<open>null\<close> is \<open>None\<close>.  The identifier drawn by \<^verbatim>\<open>crypto.randomUUID()\<close> and the
  clock reading \<^verbatim>\<open>new Date().toISOString()\<close> come from the environment and are
  arguments of the model.
\<close>

record statement_input =
  input_subject_identifier :: string
  input_predicate :: string
  input_object_value :: json
  input_source_id :: "string option"
  input_statement_timestamp :: "string option"

definition createStatement ::
  "graph \<Rightarrow> string \<Rightarrow> string \<Rightarrow> statement_input \<Rightarrow> json statement reply" where
  "createStatement g uuid now input =
     (let timestamp = (case or_null (input_statement_timestamp input) of
                         None \<Rightarrow> now
                       | Some t \<Rightarrow> t);
          params = \<lparr>e_id = uuid,
                    e_subject = input_subject_identifier input,
                    e_target = JSON_stringify (input_object_value input),
                    e_predicate = input_predicate input,
                    e_object_value = JSON_stringify (input_object_value input),
                    e_source_id = or_null (input_source_id input),
                    e_timestamp = timestamp,
                    e_created_at = now\<rparr>
      in \<lparr>issued = [CreateQuery params],
          outcome = Inr \<lparr>stmt_id = uuid,
                        subject_identifier = input_subject_identifier input,
                        predicate = input_predicate input,
                        object_value = input_object_value input,
                        source_id = or_null (input_source_id input),
                        statement_timestamp = timestamp,
                        created_at = now\<rparr>,
          store_after = run_merge_create g params\<rparr>)"

record mutation_result =
  success :: bool
  message :: string

record delete_result = mutation_result +
  deleted_id :: string

text \<open>\<^verbatim>\<open>toNumber(result.records[0]?.get("deleted")) > 0\<close>\<close>

definition deleteStatement :: "graph \<Rightarrow> string \<Rightarrow> delete_result reply" where
  "deleteStatement g i =
     (let (records, g') = run_delete g i;
          deleted = (case records of [] \<Rightarrow> False | n # _ \<Rightarrow> n > 0)
      in \<lparr>issued = [DeleteById i],
          outcome = Inr \<lparr>success = deleted,
                        message = (if deleted then ''Statement deleted'' else ''Statement not found''),
                        deleted_id = i\<rparr>,
          store_after = g'\<rparr>)"

record ingest_result = mutation_result +
  entities_created :: nat
  statements_created :: nat

text \<open>The variables of the ingest loop: the store, the counter, the set of subjects
  (a JavaScript \<^verbatim>\<open>Set\<close>: insertion order, no duplicates) and the statements sent.\<close>

record ingest_state =
  cur_graph :: graph
  statementsCreated :: nat
  entities :: "string list"
  sent :: "query list"

text \<open>Array destructuring: a position past the end is \<^verbatim>\<open>undefined\<close>.\<close>

definition nth_or_undefined :: "'a list \<Rightarrow> nat \<Rightarrow> 'a option" where
  "nth_or_undefined xs i = (if i < length xs then Some (xs ! i) else None)"

text \<open>One iteration of \<^verbatim>\<open>for (const line of lines)\<close>.  The k-th identifier drawn in
  the call is \<open>uuid k\<close>; one is drawn for each line that is not skipped.\<close>

definition ingest_line ::
  "(nat \<Rightarrow> string) \<Rightarrow> string option \<Rightarrow> string \<Rightarrow> string \<Rightarrow> ingest_state \<Rightarrow> ingest_state" where
  "ingest_line uuid sourceName now line st =
     (let fields = map trim (split CHR '','' line);
          subject = nth_or_undefined fields 0;
          predicate = nth_or_undefined fields 1;
          object_value = nth_or_undefined fields 2
      in if or_null subject = None \<or> or_null predicate = None \<or> or_null object_value = None
         then st
         else (case (subject, predicate, object_value) of
                 (Some s, Some p, Some ob) \<Rightarrow>
                   (let params = \<lparr>e_id = uuid (statementsCreated st),
                                  e_subject = s,
                                  e_target = ob,
                                  e_predicate = p,
                                  e_object_value = ob,
                                  e_source_id = sourceName,
                                  e_timestamp = now,
                                  e_created_at = now\<rparr>
                    in \<lparr>cur_graph = run_merge_create (cur_graph st) params,
                        statementsCreated = statementsCreated st + 1,
                        entities = List.insert s (entities st),
                        sent = sent st @ [IngestCreateQuery params]\<rparr>)
               | _ \<Rightarrow> st))"

fun ingest_loop ::
  "(nat \<Rightarrow> string) \<Rightarrow> string option \<Rightarrow> string \<Rightarrow> string list \<Rightarrow> ingest_state \<Rightarrow> ingest_state" where
  "ingest_loop uuid sourceName now [] st = st"
| "ingest_loop uuid sourceName now (line # lines) st =
     ingest_loop uuid sourceName now lines (ingest_line uuid sourceName now line st)"

text \<open>The \<^verbatim>\<open>format\<close> argument of the source is never read and is left out.\<close>

definition ingest ::
  "graph \<Rightarrow> (nat \<Rightarrow> string) \<Rightarrow> string \<Rightarrow> string \<Rightarrow> string option \<Rightarrow> ingest_result reply" where
  "ingest g uuid now data sourceName =
     (let lines = filter (\<lambda>l. trim l \<noteq> []) (split CHR 0x0A data);
          st = ingest_loop uuid sourceName now lines
                 \<lparr>cur_graph = g, statementsCreated = 0, entities = [], sent = []\<rparr>
      in \<lparr>issued = sent st,
          outcome = Inr \<lparr>success = True,
                        message = ''Ingested '' @ show_nat (statementsCreated st) @ '' statements'',
                        entities_created = length (entities st),
                        statements_created = statementsCreated st\<rparr>,
          store_after = cur_graph st\<rparr>)"

subsection \<open>The REST search route of \<^verbatim>\<open>src/index.ts\<close>\<close>

record search_result =
  found :: "string statement list"
  found_count :: nat

text \<open>The route maps a record field by field; \<^verbatim>\<open>source_id\<close> is passed as stored.\<close>

definition rest_statement :: "row \<Rightarrow> string statement" where
  "rest_statement r =
     \<lparr>stmt_id = r_id r,
      subject_identifier = r_subject r,
      predicate = r_predicate r,
      object_value = r_object_value r,
      source_id = r_source_id r,
      statement_timestamp = r_timestamp r,
      created_at = r_created_at r\<rparr>"

text \<open>\<^verbatim>\<open>if (!query.q) throw new Error("Query parameter 'q' is required")\<close>, before the
  session is opened.\<close>

definition api_search :: "graph \<Rightarrow> string option \<Rightarrow> search_result reply" where
  "api_search g q =
     (case or_null q of
        None \<Rightarrow> \<lparr>issued = [],
                  outcome = Inl (Thrown (''Query parameter '' @ [CHR 0x27] @ ''q'' @ [CHR 0x27] @ '' is required'')),
                  store_after = g\<rparr>
      | Some term \<Rightarrow>
          (let stmts = map rest_statement (run_search g term)
           in \<lparr>issued = [RestSearchQuery term],
               outcome = Inr \<lparr>found = stmts, found_count = length stmts\<rparr>,
               store_after = g\<rparr>))"

section \<open>Notions used to state the properties\<close>

definition empty_store :: graph where
  "empty_store = \<lparr>nodes = [], edges = []\<rparr>"

definition alice_knows_bob :: statement_input where
  "alice_knows_bob =
     \<lparr>input_subject_identifier = ''alice'', input_predicate = ''knows'',
      input_object_value = JStr ''bob'', input_source_id = None,
      input_statement_timestamp = None\<rparr>"

text \<open>The number of rows that reach the \<^verbatim>\<open>CREATE\<close> clause of a merge-and-create
  statement with the parameters \<open>e\<close>.\<close>

definition create_matches :: "graph \<Rightarrow> edge \<Rightarrow> nat" where
  "create_matches g e =
     count_list (merge_node (e_subject e) (nodes g)) (e_subject e) *
     count_list (merge_node (e_target e) (merge_node (e_subject e) (nodes g))) (e_target e)"

text \<open>The parameters that \<^verbatim>\<open>createStatement\<close> sends.\<close>

definition created_edge :: "string \<Rightarrow> string \<Rightarrow> statement_input \<Rightarrow> edge" where
  "created_edge uuid now input =
     \<lparr>e_id = uuid,
      e_subject = input_subject_identifier input,
      e_target = JSON_stringify (input_object_value input),
      e_predicate = input_predicate input,
      e_object_value = JSON_stringify (input_object_value input),
      e_source_id = or_null (input_source_id input),
      e_timestamp = (case or_null (input_statement_timestamp input) of None \<Rightarrow> now | Some t \<Rightarrow> t),
      e_created_at = now\<rparr>"

definition three_store :: graph where
  "three_store =
     \<lparr>nodes = [''alice'', ''x''],
      edges =
        [\<lparr>e_id = ''1'', e_subject = ''alice'', e_target = ''x'', e_predicate = ''p'',
          e_object_value = ''x'', e_source_id = None, e_timestamp = ''t2'', e_created_at = ''t2''\<rparr>,
         \<lparr>e_id = ''2'', e_subject = ''alice'', e_target = ''x'', e_predicate = ''p'',
          e_object_value = ''x'', e_source_id = None, e_timestamp = ''t3'', e_created_at = ''t3''\<rparr>,
         \<lparr>e_id = ''3'', e_subject = ''alice'', e_target = ''x'', e_predicate = ''p'',
          e_object_value = ''x'', e_source_id = None, e_timestamp = ''t1'', e_created_at = ''t1''\<rparr>]\<rparr>"

text \<open>The statements of a page, none when the call failed.\<close>

definition page_statements :: "page reply \<Rightarrow> string statement list" where
  "page_statements r = (case outcome r of Inl _ \<Rightarrow> [] | Inr p \<Rightarrow> statements p)"

text \<open>The full listing of a set of matched relationships: ordered by \<^verbatim>\<open>created_at\<close>
  descending, then formatted.\<close>

definition listing :: "edge list \<Rightarrow> string statement list" where
  "listing matched = map formatStatement (map return_row (order_by_created_at_desc matched))"

text \<open>The specification's reading of search: \<open>needle\<close> occurs in \<open>hay\<close>.\<close>

definition is_substring :: "string \<Rightarrow> string \<Rightarrow> bool" where
  "is_substring needle hay \<longleftrightarrow> (\<exists>pre post. hay = pre @ needle @ post)"

definition spec_match :: "string \<Rightarrow> edge \<Rightarrow> bool" where
  "spec_match q e \<longleftrightarrow>
     is_substring (toLower q) (toLower (e_object_value e)) \<or>
     is_substring (toLower q) (toLower (e_subject e))"

text \<open>The specification's reading of an ingest line: three comma-separated, trimmed
  fields, all non-empty; anything else is skipped.\<close>

definition parse_line :: "string \<Rightarrow> (string \<times> string \<times> string) option" where
  "parse_line line =
     (case map trim (split CHR '','' line) of
        s # p # ob # _ \<Rightarrow> if s \<noteq> [] \<and> p \<noteq> [] \<and> ob \<noteq> [] then Some (s, p, ob) else None
      | _ \<Rightarrow> None)"

definition accepted_lines :: "string \<Rightarrow> (string \<times> string \<times> string) list" where
  "accepted_lines data =
     List.map_filter parse_line (filter (\<lambda>l. trim l \<noteq> []) (split CHR 0x0A data))"

text \<open>The relationship that ingest creates for the k-th accepted line.\<close>

definition ingested_edge ::
  "(nat \<Rightarrow> string) \<Rightarrow> string option \<Rightarrow> string \<Rightarrow> nat \<Rightarrow> string \<times> string \<times> string \<Rightarrow> edge" where
  "ingested_edge uuid sourceName now k t =
     (case t of (s, p, ob) \<Rightarrow>
        \<lparr>e_id = uuid k, e_subject = s, e_target = ob, e_predicate = p, e_object_value = ob,
         e_source_id = sourceName, e_timestamp = now, e_created_at = now\<rparr>)"

text \<open>The effect of one accepted line on the variables of the loop.\<close>

definition accept ::
  "(nat \<Rightarrow> string) \<Rightarrow> string option \<Rightarrow> string \<Rightarrow> string \<times> string \<times> string
     \<Rightarrow> ingest_state \<Rightarrow> ingest_state" where
  "accept uuid sourceName now t st =
     \<lparr>cur_graph = run_merge_create (cur_graph st)
                    (ingested_edge uuid sourceName now (statementsCreated st) t),
      statementsCreated = Suc (statementsCreated st),
      entities = List.insert (fst t) (entities st),
      sent = sent st @ [IngestCreateQuery (ingested_edge uuid sourceName now (statementsCreated st) t)]\<rparr>"

definition ingest_start :: "graph \<Rightarrow> ingest_state" where
  "ingest_start g = \<lparr>cur_graph = g, statementsCreated = 0, entities = [], sent = []\<rparr>"

definition spec_data :: string where
  "spec_data = ''a,likes,b'' @ [CHR 0x0A] @ ''badline'' @ [CHR 0x0A] @ ''c, knows , d''"

definition numbered_ids :: "nat \<Rightarrow> string" where
  "numbered_ids k = ''id-'' @ show_nat k"

text \<open>The operations that change the store, and the node values each one refers to.\<close>

datatype operation =
    CreateStatement string string statement_input
  | Ingest "nat \<Rightarrow> string" string string "string option"
  | DeleteStatement string

fun apply_operation :: "graph \<Rightarrow> operation \<Rightarrow> graph" where
  "apply_operation g (CreateStatement uuid now input) = store_after (createStatement g uuid now input)"
| "apply_operation g (Ingest uuid now data sourceName) = store_after (ingest g uuid now data sourceName)"
| "apply_operation g (DeleteStatement i) = store_after (deleteStatement g i)"

fun referenced :: "operation \<Rightarrow> string set" where
  "referenced (CreateStatement uuid now input) =
     {input_subject_identifier input, JSON_stringify (input_object_value input)}"
| "referenced (Ingest uuid now data sourceName) = (\<Union>(s, p, ob) \<in> set (accepted_lines data). {s, ob})"
| "referenced (DeleteStatement i) = {}"

text \<open>The store with every empty \<^verbatim>\<open>source_id\<close> replaced by \<^verbatim>\<open>null\<close>.\<close>

definition blank_source_to_null :: "graph \<Rightarrow> graph" where
  "blank_source_to_null g =
     g\<lparr>edges := map (\<lambda>e. e\<lparr>e_source_id := or_null (e_source_id e)\<rparr>) (edges g)\<rparr>"

section \<open>Properties\<close>

subsection \<open>Merging nodes and creating relationships\<close>

lemma merge_node_mem: "v \<in> set (merge_node v ns)"
  by (simp add: merge_node_def)

lemma merge_node_set: "set (merge_node v ns) = insert v (set ns)"
  by (auto simp: merge_node_def)

lemma merge_node_distinct: "distinct ns \<Longrightarrow> distinct (merge_node v ns)"
  by (simp add: merge_node_def)

lemma count_list_pos: "x \<in> set xs \<Longrightarrow> 0 < count_list xs x"
  using count_list_0_iff [of xs x] by simp

lemma count_list_distinct: "distinct xs \<Longrightarrow> x \<in> set xs \<Longrightarrow> count_list xs x = 1"
  by (induction xs) auto

lemma create_matches_pos: "0 < create_matches g e"
  by (simp add: create_matches_def count_list_pos merge_node_mem)

lemma create_matches_distinct: "distinct (nodes g) \<Longrightarrow> create_matches g e = 1"
  by (simp add: create_matches_def count_list_distinct merge_node_mem merge_node_distinct)

lemma run_merge_create_edges:
  "edges (run_merge_create g e) = edges g @ replicate (create_matches g e) e"
  by (simp add: run_merge_create_def create_matches_def Let_def)

lemma run_merge_create_nodes:
  "nodes (run_merge_create g e) = merge_node (e_target e) (merge_node (e_subject e) (nodes g))"
  by (simp add: run_merge_create_def Let_def)

lemma createStatement_store:
  "store_after (createStatement g uuid now input) = run_merge_create g (created_edge uuid now input)"
  by (simp add: createStatement_def created_edge_def Let_def)

lemma statement_after_create:
  assumes "uuid \<notin> e_id ` set (edges g)"
  shows "outcome (statement (store_after (createStatement g uuid now input)) uuid) =
         Inr (Some (formatStatement (return_row (created_edge uuid now input))))"
proof -
  let ?e = "created_edge uuid now input"
  have id: "e_id ?e = uuid" by (simp add: created_edge_def)
  obtain n where n: "create_matches g ?e = Suc n"
    using create_matches_pos [of g ?e] by (cases "create_matches g ?e") auto
  have "filter (\<lambda>e. e_id e = uuid) (edges g) = []"
    using assms by (auto simp: filter_empty_conv)
  then have "match_id (run_merge_create g ?e) uuid = replicate (Suc n) ?e"
    using id by (simp add: match_id_def run_merge_create_edges n)
  then show ?thesis
    by (simp add: statement_def run_statement_by_id_def createStatement_store)
qed

lemma stringify_bob:
  "JSON_stringify (JStr ''bob'') = [CHR 0x22, CHR ''b'', CHR ''o'', CHR ''b'', CHR 0x22]"
  by (simp add: quote_string_def escape_char_def)

subsection \<open>Create, then read\<close>

text \<open>
  C1 (as the claim states it, refuted).  On the empty store,
  \<^verbatim>\<open>createStatement({subject_identifier:"alice", predicate:"knows", object_value:"bob"})\<close>
  followed by \<^verbatim>\<open>statement(id)\<close> with the returned id gives a record whose
  \<^verbatim>\<open>object_value\<close> is the five characters \<^verbatim>\<open>"bob"\<close>, quotes included, and not the
  three characters \<^verbatim>\<open>bob\<close>.
\<close>

theorem round_trip_object_value_counterexample:
  "outcome (statement
      (store_after (createStatement empty_store ''id-1'' ''2026-01-01T00:00:00.000Z'' alice_knows_bob))
      ''id-1'') =
     Inr (Some \<lparr>stmt_id = ''id-1'', subject_identifier = ''alice'', predicate = ''knows'',
                 object_value = [CHR 0x22, CHR ''b'', CHR ''o'', CHR ''b'', CHR 0x22],
                 source_id = None,
                 statement_timestamp = ''2026-01-01T00:00:00.000Z'',
                 created_at = ''2026-01-01T00:00:00.000Z''\<rparr>)
   \<and> [CHR 0x22, CHR ''b'', CHR ''o'', CHR ''b'', CHR 0x22] \<noteq> ''bob''"
  by (simp add: statement_def createStatement_def empty_store_def alice_knows_bob_def
      run_merge_create_def merge_node_def run_statement_by_id_def match_id_def return_row_def
      formatStatement_def or_null_def quote_string_def escape_char_def Let_def)

text \<open>
  C1 (amended).  When the drawn id is not yet the id of a stored statement,
  \<^verbatim>\<open>createStatement(input)\<close> followed by \<^verbatim>\<open>statement(id)\<close> returns a record with
  that id, the input's \<^verbatim>\<open>subject_identifier\<close> and \<^verbatim>\<open>predicate\<close>, and as
  \<^verbatim>\<open>object_value\<close> the JSON-serialized form of the input's \<^verbatim>\<open>object_value\<close>; for
  the string \<^verbatim>\<open>bob\<close> that form is \<^verbatim>\<open>"bob"\<close> with its quotes.
\<close>

theorem round_trip_serialized:
  assumes "uuid \<notin> e_id ` set (edges g)"
  shows "(\<exists>r. outcome (statement (store_after (createStatement g uuid now input)) uuid) = Inr (Some r)
           \<and> stmt_id r = uuid
           \<and> subject_identifier r = input_subject_identifier input
           \<and> predicate r = input_predicate input
           \<and> object_value r = JSON_stringify (input_object_value input))
         \<and> JSON_stringify (JStr ''bob'') = [CHR 0x22, CHR ''b'', CHR ''o'', CHR ''b'', CHR 0x22]"
proof (rule conjI)
  show "\<exists>r. outcome (statement (store_after (createStatement g uuid now input)) uuid) = Inr (Some r)
           \<and> stmt_id r = uuid
           \<and> subject_identifier r = input_subject_identifier input
           \<and> predicate r = input_predicate input
           \<and> object_value r = JSON_stringify (input_object_value input)"
    using statement_after_create [OF assms, of now input]
    by (simp add: formatStatement_def return_row_def created_edge_def)
  show "JSON_stringify (JStr ''bob'') = [CHR 0x22, CHR ''b'', CHR ''o'', CHR ''b'', CHR 0x22]"
    by (rule stringify_bob)
qed

theorem round_trip_serialized_witness:
  "''id-1'' \<notin> e_id ` set (edges empty_store)
   \<and> (\<exists>r. outcome (statement
             (store_after (createStatement empty_store ''id-1'' ''2026-01-01T00:00:00.000Z'' alice_knows_bob))
             ''id-1'') = Inr (Some r)
          \<and> subject_identifier r = ''alice''
          \<and> predicate r = ''knows''
          \<and> object_value r = [CHR 0x22, CHR ''b'', CHR ''o'', CHR ''b'', CHR 0x22])"
proof -
  have fresh: "''id-1'' \<notin> e_id ` set (edges empty_store)"
    by (simp add: empty_store_def)
  show ?thesis
    using fresh round_trip_serialized [OF fresh, of "''2026-01-01T00:00:00.000Z''" alice_knows_bob]
    by (auto simp: alice_knows_bob_def quote_string_def escape_char_def)
qed

subsection \<open>What create stores and what it returns\<close>

text \<open>
  C2.  For every input, \<^verbatim>\<open>createStatement\<close> appends to the stored relationships a
  statement edge (one copy for each matched pair of nodes, exactly one when no value
  has two nodes) that runs from the node of \<^verbatim>\<open>subject_identifier\<close> to the node of
  the JSON-serialized \<^verbatim>\<open>object_value\<close> and whose \<^verbatim>\<open>object_value\<close> property is that
  serialized string; the node keyed by the serialized string exists afterwards; and the
  result returned to the caller carries the original, un-serialized \<^verbatim>\<open>object_value\<close>.
\<close>

theorem createStatement_stores_serialized_returns_original:
  "\<exists>e n res.
      edges (store_after (createStatement g uuid now input)) = edges g @ replicate n e
    \<and> 0 < n \<and> (distinct (nodes g) \<longrightarrow> n = 1)
    \<and> e_id e = uuid
    \<and> e_subject e = input_subject_identifier input
    \<and> e_predicate e = input_predicate input
    \<and> e_object_value e = JSON_stringify (input_object_value input)
    \<and> e_target e = JSON_stringify (input_object_value input)
    \<and> JSON_stringify (input_object_value input) \<in> set (nodes (store_after (createStatement g uuid now input)))
    \<and> input_subject_identifier input \<in> set (nodes (store_after (createStatement g uuid now input)))
    \<and> outcome (createStatement g uuid now input) = Inr res
    \<and> stmt_id res = uuid
    \<and> object_value res = input_object_value input"
proof -
  let ?e = "created_edge uuid now input"
  let ?n = "create_matches g ?e"
  let ?res = "\<lparr>stmt_id = uuid,
               subject_identifier = input_subject_identifier input,
               predicate = input_predicate input,
               object_value = input_object_value input,
               source_id = or_null (input_source_id input),
               statement_timestamp =
                 (case or_null (input_statement_timestamp input) of None \<Rightarrow> now | Some t \<Rightarrow> t),
               created_at = now\<rparr>"
  have "edges (store_after (createStatement g uuid now input)) = edges g @ replicate ?n ?e"
    by (simp add: createStatement_store run_merge_create_edges)
  moreover have "0 < ?n" by (rule create_matches_pos)
  moreover have "distinct (nodes g) \<longrightarrow> ?n = 1" by (simp add: create_matches_distinct)
  moreover have "e_id ?e = uuid" "e_subject ?e = input_subject_identifier input"
    "e_predicate ?e = input_predicate input"
    "e_object_value ?e = JSON_stringify (input_object_value input)"
    "e_target ?e = JSON_stringify (input_object_value input)"
    by (simp_all add: created_edge_def)
  moreover have "JSON_stringify (input_object_value input)
      \<in> set (nodes (store_after (createStatement g uuid now input)))"
    "input_subject_identifier input \<in> set (nodes (store_after (createStatement g uuid now input)))"
    by (simp_all add: createStatement_store run_merge_create_nodes merge_node_set created_edge_def)
  moreover have "outcome (createStatement g uuid now input) = Inr ?res"
    by (simp add: createStatement_def Let_def)
  moreover have "stmt_id ?res = uuid" "object_value ?res = input_object_value input"
    by simp_all
  ultimately show ?thesis by blast
qed

theorem createStatement_stores_serialized_returns_original_witness:
  "\<exists>e n res.
      edges (store_after (createStatement empty_store ''id-1'' ''2026-01-01T00:00:00.000Z'' alice_knows_bob))
        = edges empty_store @ replicate n e
    \<and> n = 1
    \<and> e_object_value e = [CHR 0x22, CHR ''b'', CHR ''o'', CHR ''b'', CHR 0x22]
    \<and> outcome (createStatement empty_store ''id-1'' ''2026-01-01T00:00:00.000Z'' alice_knows_bob) = Inr res
    \<and> object_value res = JStr ''bob''"
proof -
  have d: "distinct (nodes empty_store)" by (simp add: empty_store_def)
  show ?thesis
    using d createStatement_stores_serialized_returns_original
      [of empty_store "''id-1''" "''2026-01-01T00:00:00.000Z''" alice_knows_bob]
    by (auto simp: alice_knows_bob_def quote_string_def escape_char_def)
qed

subsection \<open>Pagination\<close>

lemma paginate_outcome:
  "outcome (paginate g cq pq matched limit offset) =
     (if offset < 0 \<or> limit < 0 then Inl QueryFailed
      else Inr \<lparr>statements = take (nat limit) (drop (nat offset) (listing matched)),
                totalCount = int (length matched),
                hasMore = (offset + int (length (take (nat limit) (drop (nat offset) (listing matched))))
                            < int (length matched))\<rparr>)"
  by (simp add: paginate_def run_page_def skip_limit_def run_count_def first_total_def Let_def
      listing_def take_map drop_map)

lemma paginate_issued: "issued (paginate g cq pq matched limit offset) = [cq, pq]"
  by (simp add: paginate_def Let_def split: sum.splits)

lemma length_listing: "length (listing matched) = length matched"
  by (simp add: listing_def order_by_created_at_desc_def)

lemma has_more_arith:
  fixes k L len :: nat
  shows "(int k * int L + int (min (len - k * L) L) < int len) \<longleftrightarrow> ((k + 1) * L < len)"
proof -
  have "(int k * int L + int (min (len - k * L) L) < int len)
        \<longleftrightarrow> (k * L + min (len - k * L) L < len)"
    by (metis of_nat_add of_nat_less_iff of_nat_mult)
  also have "\<dots> \<longleftrightarrow> ((k + 1) * L < len)"
    by (auto simp: min_def)
  finally show ?thesis .
qed

lemma paginate_page:
  assumes "0 < limit"
  shows "outcome (paginate g cq pq matched limit (int k * limit)) =
         Inr \<lparr>statements = take (nat limit) (drop (k * nat limit) (listing matched)),
              totalCount = int (length matched),
              hasMore = ((k + 1) * nat limit < length matched)\<rparr>"
proof -
  obtain L where L: "limit = int L" "0 < L"
    using assms zero_less_imp_eq_int by blast
  have off: "nat (int k * int L) = k * L"
    by (simp add: nat_mult_distrib)
  have nonneg: "\<not> (int k * int L < 0 \<or> int L < 0)"
    using of_nat_less_0_iff [of "k * L"] by simp
  have more: "(int k * int L + int (min (length matched - k * L) L) < int (length matched))
        \<longleftrightarrow> ((k + 1) * L < length matched)"
    by (rule has_more_arith)
  show ?thesis
    unfolding L paginate_outcome using nonneg more
    by (simp add: off length_listing)
qed

lemma concat_pages:
  "concat (map (\<lambda>k. take L (drop (k * L) xs)) [0..<n]) = take (n * L) xs"
proof (induction n)
  case 0
  show ?case by simp
next
  case (Suc n)
  have "take (n * L + L) xs = take (n * L) xs @ take L (drop (n * L) xs)"
    by (simp add: take_add)
  with Suc show ?case by (simp add: add.commute)
qed

lemma listing_mset:
  "mset (listing matched) = mset (map formatStatement (map return_row matched))"
  by (simp add: listing_def order_by_created_at_desc_def)

lemma listing_sorted: "sorted (rev (map created_at (listing matched)))"
proof -
  have "map created_at (listing matched) = rev (map e_created_at (sort_key e_created_at matched))"
    by (simp add: listing_def order_by_created_at_desc_def formatStatement_def return_row_def
        rev_map comp_def)
  then show ?thesis by simp
qed

text \<open>
  C6 (as the claim states it, refuted).  With \<^verbatim>\<open>limit = 0\<close>, which the contract
  allows, the consecutive offsets \<^verbatim>\<open>0, limit, 2*limit, ...\<close> are all \<^verbatim>\<open>0\<close>; on a
  store with three statements of the subject that page is empty and its
  \<^verbatim>\<open>hasMore\<close> is true, so the pages never rebuild the listing and no page is final.
\<close>

theorem pages_of_limit_zero_counterexample:
  "outcome (statementsBySubject three_store ''alice'' 0 0) =
     Inr \<lparr>statements = [], totalCount = 3, hasMore = True\<rparr>"
  by (simp add: statementsBySubject_def paginate_outcome match_subject_def three_store_def)

text \<open>
  C6 (amended).  For a fixed store and \<^verbatim>\<open>limit \<ge> 1\<close>, page number \<open>k\<close>, fetched by
  \<^verbatim>\<open>statementsBySubject(identifier, limit, k*limit)\<close>, holds the entries
  \<open>k*limit, ..., k*limit + limit - 1\<close> of the listing of the matching statements ordered
  by \<^verbatim>\<open>created_at\<close> descending; the first \<open>n\<close> pages concatenate to the first
  \<open>n*limit\<close> entries of the listing, hence to the whole listing as soon as
  \<open>n*limit\<close> reaches the number of matches; \<^verbatim>\<open>totalCount\<close> is the number of matches;
  and \<^verbatim>\<open>hasMore\<close> on page \<open>k\<close> is false exactly when the pages \<open>0, ..., k\<close> already
  cover every match.  The listing has the matching statements, each as often as it
  matches, in descending order of \<^verbatim>\<open>created_at\<close>.
\<close>

theorem statementsBySubject_pages:
  assumes "0 < limit"
  shows "outcome (statementsBySubject g identifier limit (int k * limit)) =
           Inr \<lparr>statements = take (nat limit) (drop (k * nat limit) (listing (match_subject g identifier))),
                totalCount = int (length (match_subject g identifier)),
                hasMore = ((k + 1) * nat limit < length (match_subject g identifier))\<rparr>
       \<and> concat (map (\<lambda>j. page_statements (statementsBySubject g identifier limit (int j * limit))) [0..<n])
           = take (n * nat limit) (listing (match_subject g identifier))
       \<and> (length (match_subject g identifier) \<le> n * nat limit \<longrightarrow>
            concat (map (\<lambda>j. page_statements (statementsBySubject g identifier limit (int j * limit))) [0..<n])
              = listing (match_subject g identifier))
       \<and> mset (listing (match_subject g identifier))
           = mset (map formatStatement (map return_row (match_subject g identifier)))
       \<and> sorted (rev (map created_at (listing (match_subject g identifier))))"
proof -
  let ?m = "match_subject g identifier"
  have page: "\<And>j. outcome (statementsBySubject g identifier limit (int j * limit)) =
           Inr \<lparr>statements = take (nat limit) (drop (j * nat limit) (listing ?m)),
                totalCount = int (length ?m),
                hasMore = ((j + 1) * nat limit < length ?m)\<rparr>"
    unfolding statementsBySubject_def by (rule paginate_page [OF assms])
  have stmts: "\<And>j. page_statements (statementsBySubject g identifier limit (int j * limit)) =
           take (nat limit) (drop (j * nat limit) (listing ?m))"
    by (simp add: page_statements_def page)
  have cat: "concat (map (\<lambda>j. page_statements (statementsBySubject g identifier limit (int j * limit))) [0..<n])
           = take (n * nat limit) (listing ?m)"
    by (simp only: stmts concat_pages)
  have whole: "length ?m \<le> n * nat limit \<longrightarrow> take (n * nat limit) (listing ?m) = listing ?m"
    by (simp add: length_listing)
  show ?thesis
    using page [of k] cat whole listing_mset [of ?m] listing_sorted [of ?m] by simp
qed

theorem statementsBySubject_pages_witness:
  "(0::int) < 2
   \<and> outcome (statementsBySubject three_store ''alice'' 2 (int 0 * 2)) =
       Inr \<lparr>statements = take 2 (listing (edges three_store)), totalCount = 3, hasMore = True\<rparr>
   \<and> outcome (statementsBySubject three_store ''alice'' 2 (int 1 * 2)) =
       Inr \<lparr>statements = drop 2 (listing (edges three_store)), totalCount = 3, hasMore = False\<rparr>
   \<and> concat (map (\<lambda>j. page_statements (statementsBySubject three_store ''alice'' 2 (int j * 2))) [0..<2])
       = listing (edges three_store)
   \<and> map stmt_id (listing (edges three_store)) = [''2'', ''1'', ''3'']"
proof -
  have pos: "(0::int) < 2" by simp
  have m: "match_subject three_store ''alice'' = edges three_store"
    by (simp add: match_subject_def three_store_def)
  have len: "length (edges three_store) = 3"
    by (simp add: three_store_def)
  have ids: "map stmt_id (listing (edges three_store)) = [''2'', ''1'', ''3'']"
    by (simp add: listing_def three_store_def order_by_created_at_desc_def formatStatement_def
        return_row_def)
  have len': "length (listing (edges three_store)) = 3"
    by (simp add: length_listing len)
  show ?thesis
    using statementsBySubject_pages [OF pos, of three_store "''alice''" 0 2]
      statementsBySubject_pages [OF pos, of three_store "''alice''" 1 2]
    by (simp add: m len len' ids)
qed

subsection \<open>Search\<close>

lemma contains_is_substring: "contains hay needle \<longleftrightarrow> is_substring needle hay"
proof (induction hay)
  case Nil
  show ?case by (auto simp: is_substring_def)
next
  case (Cons c cs)
  have "is_substring needle (c # cs) \<longleftrightarrow>
        take (length needle) (c # cs) = needle \<or> is_substring needle cs"
  proof
    assume "is_substring needle (c # cs)"
    then obtain pre post where eq: "c # cs = pre @ needle @ post"
      by (auto simp: is_substring_def)
    show "take (length needle) (c # cs) = needle \<or> is_substring needle cs"
    proof (cases pre)
      case Nil
      with eq have "c # cs = needle @ post" by simp
      then show ?thesis by simp
    next
      case (Cons p ps)
      with eq have "cs = ps @ needle @ post" by simp
      then show ?thesis by (auto simp: is_substring_def)
    qed
  next
    assume "take (length needle) (c # cs) = needle \<or> is_substring needle cs"
    then show "is_substring needle (c # cs)"
    proof
      assume "take (length needle) (c # cs) = needle"
      then have "c # cs = [] @ needle @ drop (length needle) (c # cs)"
        by (metis append_Nil append_take_drop_id)
      then show ?thesis unfolding is_substring_def by blast
    next
      assume "is_substring needle cs"
      then obtain pre post where "cs = pre @ needle @ post"
        by (auto simp: is_substring_def)
      then have "c # cs = (c # pre) @ needle @ post" by simp
      then show ?thesis unfolding is_substring_def by blast
    qed
  qed
  with Cons show ?case by simp
qed

lemma search_match_spec: "search_match q = spec_match q"
  by (rule ext) (simp add: search_match_def spec_match_def contains_is_substring)

lemma spec_match_empty: "spec_match [] e"
  by (auto simp: spec_match_def is_substring_def toLower_def)

text \<open>
  C5 (as the claim states it, refuted).  A query of one space is not an error, but it
  does not match every statement: on a store of three statements, none of which has a
  space in its subject or object value, \<^verbatim>\<open>searchStatements(" ")\<close> returns nothing.
\<close>

theorem whitespace_query_counterexample:
  "outcome (searchStatements three_store '' '') = Inr []
   \<and> length (edges three_store) = 3"
  by (simp add: searchStatements_def run_search_def search_match_def toLower_def lower_char_def
      three_store_def)

text \<open>
  C5 (amended).  \<^verbatim>\<open>searchStatements(query)\<close> never fails and returns, formatted, the
  first 100 of the stored statements for which the lowercase form of \<^verbatim>\<open>query\<close> is a
  substring of the lowercase form of \<^verbatim>\<open>object_value\<close> or of the lowercase form of
  the subject's value: at most 100 records, only matching statements, and every
  matching statement when there are at most 100 of them.  The empty query matches
  every statement, up to the cap.  (A query of white space is matched as it is, like
  any other string.)
\<close>

theorem searchStatements_result:
  "outcome (searchStatements g q) =
     Inr (map formatStatement (map return_row (take 100 (filter (spec_match q) (edges g)))))
   \<and> length (take 100 (filter (spec_match q) (edges g))) \<le> 100
   \<and> (length (filter (spec_match q) (edges g)) \<le> 100 \<longrightarrow>
        outcome (searchStatements g q) =
          Inr (map formatStatement (map return_row (filter (spec_match q) (edges g)))))
   \<and> outcome (searchStatements g []) =
        Inr (map formatStatement (map return_row (take 100 (edges g))))"
proof -
  have "filter (spec_match []) (edges g) = edges g"
    by (simp add: spec_match_empty)
  then show ?thesis
    by (simp add: searchStatements_def run_search_def search_match_spec)
qed

theorem searchStatements_result_witness:
  "length (filter (spec_match ''ALI'') (edges three_store)) \<le> 100
   \<and> outcome (searchStatements three_store ''ALI'') =
       Inr (map formatStatement (map return_row (edges three_store)))
   \<and> outcome (searchStatements three_store []) =
       Inr (map formatStatement (map return_row (edges three_store)))"
proof -
  have "filter (search_match ''ALI'') (edges three_store) = edges three_store"
    by code_simp
  then have all: "filter (spec_match ''ALI'') (edges three_store) = edges three_store"
    by (simp add: search_match_spec)
  have len: "length (edges three_store) = 3"
    by (simp add: three_store_def)
  show ?thesis
    using searchStatements_result [of three_store "''ALI''"]
    by (simp add: all len)
qed

subsection \<open>Delete\<close>

lemma match_id_empty_iff: "match_id g i = [] \<longleftrightarrow> i \<notin> e_id ` set (edges g)"
  by (auto simp: match_id_def filter_empty_conv)

lemma deleteStatement_outcome:
  "outcome (deleteStatement g i) =
     Inr \<lparr>success = (i \<in> e_id ` set (edges g)),
          message = (if i \<in> e_id ` set (edges g) then ''Statement deleted'' else ''Statement not found''),
          deleted_id = i\<rparr>"
  by (simp add: deleteStatement_def run_delete_def Let_def match_id_empty_iff)

text \<open>
  C7.  \<^verbatim>\<open>deleteStatement(id)\<close> never fails.  It returns \<^verbatim>\<open>success = true\<close> and
  \<^verbatim>\<open>"Statement deleted"\<close> when a relationship with that id was stored, and
  \<^verbatim>\<open>success = false\<close> and \<^verbatim>\<open>"Statement not found"\<close> otherwise; the id is echoed in
  both cases.  Afterwards exactly the relationships with another id remain, no node is
  removed, \<^verbatim>\<open>statement(id)\<close> returns \<^verbatim>\<open>null\<close>, and a second delete of the same id
  reports \<^verbatim>\<open>success = false\<close>.
\<close>

theorem deleteStatement_result:
  "outcome (deleteStatement g i) =
     Inr \<lparr>success = (i \<in> e_id ` set (edges g)),
          message = (if i \<in> e_id ` set (edges g) then ''Statement deleted'' else ''Statement not found''),
          deleted_id = i\<rparr>
   \<and> edges (store_after (deleteStatement g i)) = filter (\<lambda>e. e_id e \<noteq> i) (edges g)
   \<and> nodes (store_after (deleteStatement g i)) = nodes g
   \<and> i \<notin> e_id ` set (edges (store_after (deleteStatement g i)))
   \<and> outcome (statement (store_after (deleteStatement g i)) i) = Inr None
   \<and> outcome (deleteStatement (store_after (deleteStatement g i)) i) =
       Inr \<lparr>success = False, message = ''Statement not found'', deleted_id = i\<rparr>"
proof -
  let ?g' = "g\<lparr>edges := filter (\<lambda>e. e_id e \<noteq> i) (edges g)\<rparr>"
  have store: "store_after (deleteStatement g i) = ?g'"
    by (simp add: deleteStatement_def run_delete_def Let_def)
  have gone: "i \<notin> e_id ` set (edges ?g')"
    by auto
  have after: "match_id ?g' i = []"
    by (auto simp: match_id_def filter_empty_conv)
  have "outcome (deleteStatement g i) =
     Inr \<lparr>success = (i \<in> e_id ` set (edges g)),
          message = (if i \<in> e_id ` set (edges g) then ''Statement deleted'' else ''Statement not found''),
          deleted_id = i\<rparr>"
    by (rule deleteStatement_outcome)
  moreover have "edges (store_after (deleteStatement g i)) = filter (\<lambda>e. e_id e \<noteq> i) (edges g)"
    by (simp add: store)
  moreover have "nodes (store_after (deleteStatement g i)) = nodes g"
    by (simp add: store)
  moreover have "i \<notin> e_id ` set (edges (store_after (deleteStatement g i)))"
    unfolding store by (rule gone)
  moreover have "outcome (statement (store_after (deleteStatement g i)) i) = Inr None"
    by (simp add: store statement_def run_statement_by_id_def after)
  moreover have "outcome (deleteStatement (store_after (deleteStatement g i)) i) =
       Inr \<lparr>success = False, message = ''Statement not found'', deleted_id = i\<rparr>"
    using gone by (simp only: store deleteStatement_outcome) simp
  ultimately show ?thesis by blast
qed

theorem deleteStatement_result_witness:
  "outcome (deleteStatement three_store ''2'') =
     Inr \<lparr>success = True, message = ''Statement deleted'', deleted_id = ''2''\<rparr>
   \<and> outcome (deleteStatement three_store ''9'') =
     Inr \<lparr>success = False, message = ''Statement not found'', deleted_id = ''9''\<rparr>
   \<and> map e_id (edges (store_after (deleteStatement three_store ''2''))) = [''1'', ''3'']
   \<and> outcome (statement (store_after (deleteStatement three_store ''2'')) ''2'') = Inr None"
  using deleteStatement_result [of three_store "''2''"] deleteStatement_result [of three_store "''9''"]
  by (simp add: three_store_def)

subsection \<open>Argument checks\<close>

text \<open>
  C8 (as the claim states it, refuted).  \<^verbatim>\<open>statementsBySubject("alice", limit 10,
  offset -1)\<close> raises no error of its own: it sends the count query and then the page
  query with the negative offset to the backend, and what the caller sees is the
  backend's failure on the page query.
\<close>

theorem negative_offset_counterexample:
  "issued (statementsBySubject empty_store ''alice'' 10 (- 1)) =
     [CountBySubject ''alice'', PageBySubject ''alice'' (- 1) 10]
   \<and> outcome (statementsBySubject empty_store ''alice'' 10 (- 1)) = Inl QueryFailed"
  by (simp add: statementsBySubject_def paginate_issued paginate_outcome)

text \<open>
  C8 (amended).  The three paginated resolvers check nothing: whatever the bounds, each
  sends its count query and then its page query, and with \<^verbatim>\<open>offset < 0\<close> or
  \<^verbatim>\<open>limit < 0\<close> the call fails with the backend's rejection of the page query.  The
  REST search route, when the parameter \<^verbatim>\<open>q\<close> is missing or empty, throws
  \<^verbatim>\<open>Query parameter 'q' is required\<close> before it sends anything to the backend.
\<close>

theorem bounds_unchecked_search_term_checked:
  "issued (statementsBySubject g identifier limit offset) =
     [CountBySubject identifier, PageBySubject identifier offset limit]
   \<and> issued (statementsByPredicate g p limit offset) =
     [CountByPredicate p, PageByPredicate p offset limit]
   \<and> issued (paginatedStatements g limit offset) = [CountAll, PageAll offset limit]
   \<and> (offset < 0 \<or> limit < 0 \<longrightarrow>
        outcome (statementsBySubject g identifier limit offset) = Inl QueryFailed
      \<and> outcome (statementsByPredicate g p limit offset) = Inl QueryFailed
      \<and> outcome (paginatedStatements g limit offset) = Inl QueryFailed)
   \<and> (q = None \<or> q = Some [] \<longrightarrow>
        issued (api_search g q) = []
      \<and> outcome (api_search g q) =
          Inl (Thrown (''Query parameter '' @ [CHR 0x27] @ ''q'' @ [CHR 0x27] @ '' is required'')))"
  by (auto simp: statementsBySubject_def statementsByPredicate_def paginatedStatements_def
      paginate_issued paginate_outcome api_search_def or_null_def)

theorem bounds_unchecked_search_term_checked_witness:
  "((- 1 :: int) < 0 \<or> (10 :: int) < 0)
   \<and> issued (paginatedStatements three_store 10 (- 1)) = [CountAll, PageAll (- 1) 10]
   \<and> outcome (paginatedStatements three_store 10 (- 1)) = Inl QueryFailed
   \<and> outcome (statementsByPredicate three_store ''p'' 10 (- 1)) = Inl QueryFailed
   \<and> issued (api_search three_store None) = []
   \<and> outcome (api_search three_store None) =
        Inl (Thrown (''Query parameter '' @ [CHR 0x27] @ ''q'' @ [CHR 0x27] @ '' is required''))"
  using bounds_unchecked_search_term_checked [of three_store "''alice''" 10 "- 1" "''p''" None]
  by simp

subsection \<open>Ingest\<close>

lemma run_merge_create_distinct:
  "distinct (nodes g) \<Longrightarrow> distinct (nodes (run_merge_create g e))"
  by (simp add: run_merge_create_nodes merge_node_distinct)

lemma run_merge_create_node_set:
  "set (nodes (run_merge_create g e)) = insert (e_target e) (insert (e_subject e) (set (nodes g)))"
  by (simp add: run_merge_create_nodes merge_node_set)

lemma run_merge_create_one:
  "distinct (nodes g) \<Longrightarrow> edges (run_merge_create g e) = edges g @ [e]"
  by (simp add: run_merge_create_edges create_matches_distinct)

lemma ingest_line_parse:
  "ingest_line uuid sourceName now line st =
     (case parse_line line of None \<Rightarrow> st | Some t \<Rightarrow> accept uuid sourceName now t st)"
proof (cases "map trim (split CHR '','' line)")
  case Nil
  then show ?thesis
    by (simp add: ingest_line_def parse_line_def nth_or_undefined_def or_null_def Let_def)
next
  case (Cons s r1)
  note c1 = this
  show ?thesis
  proof (cases r1)
    case Nil
    with c1 show ?thesis
      by (simp add: ingest_line_def parse_line_def nth_or_undefined_def or_null_def Let_def)
  next
    case (Cons p r2)
    note c2 = this
    show ?thesis
    proof (cases r2)
      case Nil
      with c1 c2 show ?thesis
        by (simp add: ingest_line_def parse_line_def nth_or_undefined_def or_null_def Let_def)
    next
      case (Cons ob r3)
      with c1 c2 show ?thesis
        by (simp add: ingest_line_def parse_line_def nth_or_undefined_def or_null_def Let_def
            accept_def ingested_edge_def)
    qed
  qed
qed

lemma ingest_loop_parse:
  "ingest_loop uuid sourceName now lines st =
   fold (accept uuid sourceName now) (List.map_filter parse_line lines) st"
proof (induction lines arbitrary: st)
  case Nil
  show ?case by (simp add: map_filter_simps)
next
  case (Cons line lines)
  show ?case
    by (cases "parse_line line") (simp_all add: Cons ingest_line_parse map_filter_simps)
qed

lemma fold_accept_count:
  "statementsCreated (fold (accept uuid sourceName now) ts st) = statementsCreated st + length ts"
  by (induction ts arbitrary: st) (simp_all add: accept_def)

lemma fold_accept_distinct:
  "distinct (nodes (cur_graph st)) \<Longrightarrow>
   distinct (nodes (cur_graph (fold (accept uuid sourceName now) ts st)))"
proof (induction ts arbitrary: st)
  case Nil
  then show ?case by simp
next
  case (Cons t ts)
  have "distinct (nodes (cur_graph (accept uuid sourceName now t st)))"
    using Cons.prems by (simp add: accept_def run_merge_create_distinct)
  then show ?case using Cons.IH by simp
qed

lemma fold_accept_edges:
  "distinct (nodes (cur_graph st)) \<Longrightarrow>
   edges (cur_graph (fold (accept uuid sourceName now) ts st)) =
   edges (cur_graph st) @
     map (\<lambda>(k, t). ingested_edge uuid sourceName now k t) (enumerate (statementsCreated st) ts)"
proof (induction ts arbitrary: st)
  case Nil
  then show ?case by simp
next
  case (Cons t ts)
  let ?st = "accept uuid sourceName now t st"
  have d: "distinct (nodes (cur_graph ?st))"
    using Cons.prems by (simp add: accept_def run_merge_create_distinct)
  have e: "edges (cur_graph ?st) =
           edges (cur_graph st) @ [ingested_edge uuid sourceName now (statementsCreated st) t]"
    using Cons.prems by (simp add: accept_def run_merge_create_one)
  have c: "statementsCreated ?st = Suc (statementsCreated st)"
    by (simp add: accept_def)
  show ?case using Cons.IH [OF d] by (simp add: e c)
qed

lemma fold_accept_nodes:
  "set (nodes (cur_graph (fold (accept uuid sourceName now) ts st))) =
   set (nodes (cur_graph st)) \<union> (\<Union>(s, p, ob) \<in> set ts. {s, ob})"
proof (induction ts arbitrary: st)
  case Nil
  show ?case by simp
next
  case (Cons t ts)
  obtain s p ob where t: "t = (s, p, ob)" by (cases t) auto
  have "set (nodes (cur_graph (accept uuid sourceName now t st))) =
        insert ob (insert s (set (nodes (cur_graph st))))"
    by (simp add: accept_def run_merge_create_node_set ingested_edge_def t)
  then show ?case using Cons.IH [of "accept uuid sourceName now t st"] by (auto simp: t)
qed

lemma fold_accept_entities:
  "set (entities (fold (accept uuid sourceName now) ts st)) = set (entities st) \<union> fst ` set ts"
  by (induction ts arbitrary: st) (auto simp: accept_def)

lemma fold_accept_entities_distinct:
  "distinct (entities st) \<Longrightarrow> distinct (entities (fold (accept uuid sourceName now) ts st))"
  by (induction ts arbitrary: st) (simp_all add: accept_def)

lemma fold_accept_sent:
  "sent (fold (accept uuid sourceName now) ts st) =
   sent st @ map (\<lambda>(k, t). IngestCreateQuery (ingested_edge uuid sourceName now k t))
                 (enumerate (statementsCreated st) ts)"
  by (induction ts arbitrary: st) (simp_all add: accept_def)

lemma ingest_unfold:
  "ingest g uuid now data sourceName =
     (let st = fold (accept uuid sourceName now) (accepted_lines data) (ingest_start g)
      in \<lparr>issued = sent st,
          outcome = Inr \<lparr>success = True,
                        message = ''Ingested '' @ show_nat (statementsCreated st) @ '' statements'',
                        entities_created = length (entities st),
                        statements_created = statementsCreated st\<rparr>,
          store_after = cur_graph st\<rparr>)"
  by (simp add: ingest_def ingest_loop_parse accepted_lines_def ingest_start_def Let_def)

lemma few_fields_skipped:
  "length (filter (\<lambda>f. f \<noteq> []) (map trim (split CHR '','' line))) < 3 \<Longrightarrow> parse_line line = None"
  by (auto simp: parse_line_def split: list.splits)

lemma accepted_spec_data:
  "accepted_lines spec_data = [(''a'', ''likes'', ''b''), (''c'', ''knows'', ''d'')]"
  by (simp add: accepted_lines_def spec_data_def parse_line_def trim_def is_space_def
      map_filter_simps)

lemma show_nat_2: "show_nat 2 = ''2''"
  by code_simp

text \<open>
  C4.  On a store in which no value has two nodes, \<^verbatim>\<open>ingest(data, sourceName)\<close>
  appends one relationship for each accepted line, in order, and nothing else: the k-th
  of them has the k-th id drawn in the call, the line's trimmed subject and predicate,
  as \<^verbatim>\<open>object_value\<close> the raw trimmed third field, \<^verbatim>\<open>source_id = sourceName\<close>, and
  \<^verbatim>\<open>timestamp = created_at\<close> = the one time stamp of the call.  The accepted lines are
  the non-blank lines whose first three comma-separated fields are non-empty after
  trimming; a line with fewer than three non-empty fields is skipped.  The result is
  \<^verbatim>\<open>success = true\<close>, \<^verbatim>\<open>"Ingested N statements"\<close>, \<^verbatim>\<open>entities_created\<close> = the
  number of distinct subjects of accepted lines, \<^verbatim>\<open>statements_created\<close> = N, where N
  is the number of accepted lines.
\<close>

theorem ingest_result:
  assumes "distinct (nodes g)"
  shows "edges (store_after (ingest g uuid now data sourceName)) =
           edges g @ map (\<lambda>(k, t). ingested_edge uuid sourceName now k t)
                         (enumerate 0 (accepted_lines data))
       \<and> outcome (ingest g uuid now data sourceName) =
           Inr \<lparr>success = True,
                message = ''Ingested '' @ show_nat (length (accepted_lines data)) @ '' statements'',
                entities_created = card (fst ` set (accepted_lines data)),
                statements_created = length (accepted_lines data)\<rparr>
       \<and> ingested_edge uuid sourceName now k (s, p, ob) =
           \<lparr>e_id = uuid k, e_subject = s, e_target = ob, e_predicate = p, e_object_value = ob,
            e_source_id = sourceName, e_timestamp = now, e_created_at = now\<rparr>
       \<and> (length (filter (\<lambda>f. f \<noteq> []) (map trim (split CHR '','' line))) < 3
            \<longrightarrow> parse_line line = None)"
proof -
  let ?st = "fold (accept uuid sourceName now) (accepted_lines data) (ingest_start g)"
  have d: "distinct (nodes (cur_graph (ingest_start g)))"
    using assms by (simp add: ingest_start_def)
  have e: "edges (store_after (ingest g uuid now data sourceName)) =
           edges g @ map (\<lambda>(k, t). ingested_edge uuid sourceName now k t)
                         (enumerate 0 (accepted_lines data))"
    using fold_accept_edges [OF d, of uuid sourceName now "accepted_lines data"]
    by (simp add: ingest_unfold Let_def ingest_start_def)
  have n: "statementsCreated ?st = length (accepted_lines data)"
    by (simp add: fold_accept_count ingest_start_def)
  have "distinct (entities ?st)"
    by (rule fold_accept_entities_distinct) (simp add: ingest_start_def)
  moreover have "set (entities ?st) = fst ` set (accepted_lines data)"
    by (simp add: fold_accept_entities ingest_start_def)
  ultimately have m: "length (entities ?st) = card (fst ` set (accepted_lines data))"
    using distinct_card by metis
  have r: "outcome (ingest g uuid now data sourceName) =
           Inr \<lparr>success = True,
                message = ''Ingested '' @ show_nat (length (accepted_lines data)) @ '' statements'',
                entities_created = card (fst ` set (accepted_lines data)),
                statements_created = length (accepted_lines data)\<rparr>"
    by (simp add: ingest_unfold Let_def n m)
  have i: "ingested_edge uuid sourceName now k (s, p, ob) =
           \<lparr>e_id = uuid k, e_subject = s, e_target = ob, e_predicate = p, e_object_value = ob,
            e_source_id = sourceName, e_timestamp = now, e_created_at = now\<rparr>"
    by (simp add: ingested_edge_def)
  show ?thesis
    using e r i few_fields_skipped [of line] by blast
qed

theorem ingest_result_witness:
  "distinct (nodes empty_store)
   \<and> edges (store_after (ingest empty_store numbered_ids ''t'' spec_data (Some ''src''))) =
       [\<lparr>e_id = numbered_ids 0, e_subject = ''a'', e_target = ''b'', e_predicate = ''likes'',
         e_object_value = ''b'', e_source_id = Some ''src'', e_timestamp = ''t'', e_created_at = ''t''\<rparr>,
        \<lparr>e_id = numbered_ids 1, e_subject = ''c'', e_target = ''d'', e_predicate = ''knows'',
         e_object_value = ''d'', e_source_id = Some ''src'', e_timestamp = ''t'', e_created_at = ''t''\<rparr>]
   \<and> outcome (ingest empty_store numbered_ids ''t'' spec_data (Some ''src'')) =
       Inr \<lparr>success = True, message = ''Ingested 2 statements'',
            entities_created = 2, statements_created = 2\<rparr>
   \<and> parse_line ''badline'' = None"
proof -
  have d: "distinct (nodes empty_store)"
    by (simp add: empty_store_def)
  have few: "length (filter (\<lambda>f. f \<noteq> []) (map trim (split CHR '','' ''badline''))) < 3"
    by (simp add: trim_def is_space_def)
  have c: "card {''a'', ''c''} = 2"
    by simp
  have len: "length (accepted_lines spec_data) = 2"
    by (simp add: accepted_spec_data)
  show ?thesis
    using d few
      ingest_result [OF d, of numbered_ids "''t''" spec_data "Some ''src''" 0 "''a''" "''likes''" "''b''"
        "''badline''"]
    unfolding len show_nat_2
    by (simp add: accepted_spec_data c ingested_edge_def empty_store_def)
qed

subsection \<open>Lines with more than three fields\<close>

lemma split_append_sep:
  "sep \<notin> set a \<Longrightarrow> split sep (a @ sep # rest) = a # split sep rest"
  by (induction a) auto

lemma split_no_sep: "sep \<notin> set a \<Longrightarrow> split sep a = [a]"
  by (induction a) auto

text \<open>
  C10.  When an ingest line has more than three comma-separated fields, the loop does
  what it does for the line cut after its third field: everything from the third comma
  on is dropped without an error.  If the first three fields are non-empty after
  trimming, one statement is created from them, with the trimmed first, second and
  third field as subject, predicate and object value.
\<close>

theorem ingest_line_extra_fields:
  assumes "CHR '','' \<notin> set a" "CHR '','' \<notin> set b" "CHR '','' \<notin> set c"
  shows "ingest_line uuid sourceName now (a @ '','' @ b @ '','' @ c @ '','' @ rest) st =
           ingest_line uuid sourceName now (a @ '','' @ b @ '','' @ c) st
       \<and> (trim a \<noteq> [] \<and> trim b \<noteq> [] \<and> trim c \<noteq> [] \<longrightarrow>
           ingest_line uuid sourceName now (a @ '','' @ b @ '','' @ c @ '','' @ rest) st =
             \<lparr>cur_graph = run_merge_create (cur_graph st)
                            \<lparr>e_id = uuid (statementsCreated st), e_subject = trim a,
                             e_target = trim c, e_predicate = trim b, e_object_value = trim c,
                             e_source_id = sourceName, e_timestamp = now, e_created_at = now\<rparr>,
              statementsCreated = statementsCreated st + 1,
              entities = List.insert (trim a) (entities st),
              sent = sent st @ [IngestCreateQuery
                            \<lparr>e_id = uuid (statementsCreated st), e_subject = trim a,
                             e_target = trim c, e_predicate = trim b, e_object_value = trim c,
                             e_source_id = sourceName, e_timestamp = now, e_created_at = now\<rparr>]\<rparr>)"
proof -
  have s: "map trim (split CHR '','' (a @ '','' @ b @ '','' @ c @ '','' @ rest)) =
        trim a # trim b # trim c # map trim (split CHR '','' rest)"
    using assms by (simp add: split_append_sep)
  have s': "map trim (split CHR '','' (a @ '','' @ b @ '','' @ c)) = [trim a, trim b, trim c]"
    using assms by (simp add: split_append_sep split_no_sep)
  have same: "ingest_line uuid sourceName now (a @ '','' @ b @ '','' @ c @ '','' @ rest) st =
         ingest_line uuid sourceName now (a @ '','' @ b @ '','' @ c) st"
    unfolding ingest_line_def s s' by (simp add: nth_or_undefined_def Let_def)
  have made: "trim a \<noteq> [] \<and> trim b \<noteq> [] \<and> trim c \<noteq> [] \<longrightarrow>
         ingest_line uuid sourceName now (a @ '','' @ b @ '','' @ c @ '','' @ rest) st =
             \<lparr>cur_graph = run_merge_create (cur_graph st)
                            \<lparr>e_id = uuid (statementsCreated st), e_subject = trim a,
                             e_target = trim c, e_predicate = trim b, e_object_value = trim c,
                             e_source_id = sourceName, e_timestamp = now, e_created_at = now\<rparr>,
              statementsCreated = statementsCreated st + 1,
              entities = List.insert (trim a) (entities st),
              sent = sent st @ [IngestCreateQuery
                            \<lparr>e_id = uuid (statementsCreated st), e_subject = trim a,
                             e_target = trim c, e_predicate = trim b, e_object_value = trim c,
                             e_source_id = sourceName, e_timestamp = now, e_created_at = now\<rparr>]\<rparr>"
    unfolding ingest_line_def s by (simp add: nth_or_undefined_def or_null_def Let_def)
  show ?thesis using same made by (rule conjI)
qed

theorem ingest_line_extra_fields_witness:
  "CHR '','' \<notin> set ''a'' \<and> CHR '','' \<notin> set ''says'' \<and> CHR '','' \<notin> set ''hello''
   \<and> trim ''a'' \<noteq> [] \<and> trim ''says'' \<noteq> [] \<and> trim ''hello'' \<noteq> []
   \<and> edges (cur_graph (ingest_line numbered_ids None ''t'' ''a,says,hello, world''
                          (ingest_start empty_store))) =
       [\<lparr>e_id = numbered_ids 0, e_subject = ''a'', e_target = ''hello'', e_predicate = ''says'',
         e_object_value = ''hello'', e_source_id = None, e_timestamp = ''t'', e_created_at = ''t''\<rparr>]"
proof -
  have a: "CHR '','' \<notin> set ''a''" and b: "CHR '','' \<notin> set ''says''"
    and c: "CHR '','' \<notin> set ''hello''"
    by simp_all
  have t: "trim ''a'' = ''a''" "trim ''says'' = ''says''" "trim ''hello'' = ''hello''"
    by (simp_all add: trim_def is_space_def)
  show ?thesis
    using a b c ingest_line_extra_fields [OF a b c, of numbered_ids None "''t''" "'' world''"
        "ingest_start empty_store", THEN conjunct2]
    by (simp add: t ingest_start_def empty_store_def run_merge_create_def merge_node_def Let_def)
qed

subsection \<open>An empty \<^verbatim>\<open>source_id\<close> on read\<close>

lemma or_null_idem: "or_null (or_null x) = or_null x"
  by (simp add: or_null_def split: option.splits)

lemma format_blank:
  "formatStatement (return_row (e\<lparr>e_source_id := or_null (e_source_id e)\<rparr>)) =
   formatStatement (return_row e)"
  by (simp add: formatStatement_def return_row_def or_null_idem)

lemma insort_key_map:
  assumes "\<And>x. f (h x) = f x"
  shows "insort_key f (h x) (map h ys) = map h (insort_key f x ys)"
  by (induction ys) (simp_all add: assms)

lemma sort_key_map:
  assumes "\<And>x. f (h x) = f x"
  shows "sort_key f (map h xs) = map h (sort_key f xs)"
  using assms by (induction xs) (simp_all add: insort_key_map)

lemma formatted_blank:
  "map formatStatement (map return_row (map (\<lambda>e. e\<lparr>e_source_id := or_null (e_source_id e)\<rparr>) es)) =
   map formatStatement (map return_row es)"
  by (simp add: format_blank comp_def)

lemma order_blank:
  "order_by_created_at_desc (map (\<lambda>e. e\<lparr>e_source_id := or_null (e_source_id e)\<rparr>) es) =
   map (\<lambda>e. e\<lparr>e_source_id := or_null (e_source_id e)\<rparr>) (order_by_created_at_desc es)"
  by (simp add: order_by_created_at_desc_def sort_key_map rev_map)

lemma listing_blank:
  "listing (map (\<lambda>e. e\<lparr>e_source_id := or_null (e_source_id e)\<rparr>) es) = listing es"
  unfolding listing_def order_blank by (rule formatted_blank)

lemma paginate_blank:
  "outcome (paginate g' cq pq (map (\<lambda>e. e\<lparr>e_source_id := or_null (e_source_id e)\<rparr>) es) limit offset) =
   outcome (paginate g cq pq es limit offset)"
  by (simp add: paginate_outcome listing_blank)

lemma match_subject_blank:
  "match_subject (blank_source_to_null g) s =
   map (\<lambda>e. e\<lparr>e_source_id := or_null (e_source_id e)\<rparr>) (match_subject g s)"
  by (simp add: match_subject_def blank_source_to_null_def filter_map comp_def)

lemma match_predicate_blank:
  "match_predicate (blank_source_to_null g) s =
   map (\<lambda>e. e\<lparr>e_source_id := or_null (e_source_id e)\<rparr>) (match_predicate g s)"
  by (simp add: match_predicate_def blank_source_to_null_def filter_map comp_def)

lemma match_id_blank:
  "match_id (blank_source_to_null g) s =
   map (\<lambda>e. e\<lparr>e_source_id := or_null (e_source_id e)\<rparr>) (match_id g s)"
  by (simp add: match_id_def blank_source_to_null_def filter_map comp_def)

lemma edges_blank:
  "edges (blank_source_to_null g) =
   map (\<lambda>e. e\<lparr>e_source_id := or_null (e_source_id e)\<rparr>) (edges g)"
  by (simp add: blank_source_to_null_def)

lemma search_match_blank: "search_match q (e\<lparr>e_source_id := x\<rparr>) = search_match q e"
  by (simp add: search_match_def)

lemma statement_blank:
  "outcome (statement (blank_source_to_null g) i) = outcome (statement g i)"
  by (cases "match_id g i")
    (simp_all add: statement_def run_statement_by_id_def match_id_blank format_blank)

lemma statementsBySubject_blank:
  "outcome (statementsBySubject (blank_source_to_null g) identifier limit offset) =
   outcome (statementsBySubject g identifier limit offset)"
  unfolding statementsBySubject_def match_subject_blank by (rule paginate_blank)

lemma statementsByPredicate_blank:
  "outcome (statementsByPredicate (blank_source_to_null g) p limit offset) =
   outcome (statementsByPredicate g p limit offset)"
  unfolding statementsByPredicate_def match_predicate_blank by (rule paginate_blank)

lemma paginatedStatements_blank:
  "outcome (paginatedStatements (blank_source_to_null g) limit offset) =
   outcome (paginatedStatements g limit offset)"
  unfolding paginatedStatements_def edges_blank by (rule paginate_blank)

lemma searchStatements_blank:
  "outcome (searchStatements (blank_source_to_null g) q) = outcome (searchStatements g q)"
proof -
  have "filter (search_match q) (map (\<lambda>e. e\<lparr>e_source_id := or_null (e_source_id e)\<rparr>) (edges g)) =
        map (\<lambda>e. e\<lparr>e_source_id := or_null (e_source_id e)\<rparr>) (filter (search_match q) (edges g))"
    by (simp add: filter_map comp_def search_match_blank)
  then show ?thesis
    by (simp add: searchStatements_def run_search_def edges_blank take_map format_blank comp_def)
qed

lemma ingest_one_line_store:
  "store_after (ingest empty_store numbered_ids ''t'' ''a,likes,b'' src) =
     \<lparr>nodes = [''a'', ''b''],
      edges = [\<lparr>e_id = numbered_ids 0, e_subject = ''a'', e_target = ''b'', e_predicate = ''likes'',
                e_object_value = ''b'', e_source_id = src, e_timestamp = ''t'',
                e_created_at = ''t''\<rparr>]\<rparr>"
proof -
  have acc: "accepted_lines ''a,likes,b'' = [(''a'', ''likes'', ''b'')]"
    by (simp add: accepted_lines_def parse_line_def trim_def is_space_def map_filter_simps)
  show ?thesis
    by (simp add: ingest_unfold acc Let_def accept_def ingest_start_def empty_store_def
        run_merge_create_def merge_node_def ingested_edge_def)
qed

text \<open>
  C9 (as the claim states it, refuted).  Not every read operation formats its records
  with \<^verbatim>\<open>formatStatement\<close>: the REST search route of \<^verbatim>\<open>src/index.ts\<close> copies
  \<^verbatim>\<open>source_id\<close> as stored.  After \<^verbatim>\<open>ingest("a,likes,b", sourceName = "")\<close> on the
  empty store, \<^verbatim>\<open>/api/search?q=a\<close> returns the statement with \<^verbatim>\<open>source_id = ""\<close>;
  after the same ingest with \<^verbatim>\<open>sourceName = null\<close> it returns it with
  \<^verbatim>\<open>source_id = null\<close>.  The two statements are told apart on that read.
\<close>

theorem rest_search_blank_source_id_counterexample:
  "outcome (api_search (store_after (ingest empty_store numbered_ids ''t'' ''a,likes,b'' (Some [])))
              (Some ''a'')) =
     Inr \<lparr>found = [\<lparr>stmt_id = numbered_ids 0, subject_identifier = ''a'', predicate = ''likes'',
                     object_value = ''b'', source_id = Some [], statement_timestamp = ''t'',
                     created_at = ''t''\<rparr>],
          found_count = 1\<rparr>
   \<and> outcome (api_search (store_after (ingest empty_store numbered_ids ''t'' ''a,likes,b'' None))
              (Some ''a'')) =
     Inr \<lparr>found = [\<lparr>stmt_id = numbered_ids 0, subject_identifier = ''a'', predicate = ''likes'',
                     object_value = ''b'', source_id = None, statement_timestamp = ''t'',
                     created_at = ''t''\<rparr>],
          found_count = 1\<rparr>
   \<and> Some [] \<noteq> (None :: string option)"
  by (simp add: ingest_one_line_store api_search_def or_null_def run_search_def search_match_def
      toLower_def lower_char_def return_row_def rest_statement_def)

text \<open>
  C9 (amended).  In the result formatting of the resolvers that use
  \<^verbatim>\<open>formatStatement\<close> (\<^verbatim>\<open>statement\<close>, \<^verbatim>\<open>statementsBySubject\<close>,
  \<^verbatim>\<open>statementsByPredicate\<close>, \<^verbatim>\<open>paginatedStatements\<close>, \<^verbatim>\<open>searchStatements\<close>), a
  stored \<^verbatim>\<open>source_id\<close> that is the empty string is returned as \<^verbatim>\<open>null\<close>, like an
  absent one, and the two records format alike.  So two stores that differ only in
  that some statements carry \<^verbatim>\<open>source_id = ""\<close> in one and no \<^verbatim>\<open>source_id\<close> in the
  other give the same result in each of these five resolvers; and
  \<^verbatim>\<open>createStatement\<close> itself stores an input \<^verbatim>\<open>source_id\<close> of \<^verbatim>\<open>""\<close> as an
  absent one.  The REST route, which does not use \<^verbatim>\<open>formatStatement\<close>, returns
  \<^verbatim>\<open>source_id\<close> as it is stored.
\<close>

theorem blank_source_id_reads_as_null:
  "source_id (formatStatement (r\<lparr>r_source_id := Some []\<rparr>)) = None
   \<and> source_id (formatStatement (r\<lparr>r_source_id := None\<rparr>)) = None
   \<and> formatStatement (r\<lparr>r_source_id := Some []\<rparr>) = formatStatement (r\<lparr>r_source_id := None\<rparr>)
   \<and> (blank_source_to_null g1 = blank_source_to_null g2 \<longrightarrow>
         outcome (statement g1 i) = outcome (statement g2 i)
       \<and> outcome (statementsBySubject g1 identifier limit offset) =
           outcome (statementsBySubject g2 identifier limit offset)
       \<and> outcome (statementsByPredicate g1 p limit offset) =
           outcome (statementsByPredicate g2 p limit offset)
       \<and> outcome (paginatedStatements g1 limit offset) = outcome (paginatedStatements g2 limit offset)
       \<and> outcome (searchStatements g1 q) = outcome (searchStatements g2 q))
   \<and> createStatement g uuid now (input\<lparr>input_source_id := Some []\<rparr>) =
       createStatement g uuid now (input\<lparr>input_source_id := None\<rparr>)
   \<and> source_id (rest_statement r) = r_source_id r"
proof -
  have rest: "source_id (rest_statement r) = r_source_id r"
    by (simp add: rest_statement_def)
  have fmt: "source_id (formatStatement (r\<lparr>r_source_id := Some []\<rparr>)) = None"
    "source_id (formatStatement (r\<lparr>r_source_id := None\<rparr>)) = None"
    "formatStatement (r\<lparr>r_source_id := Some []\<rparr>) = formatStatement (r\<lparr>r_source_id := None\<rparr>)"
    by (simp_all add: formatStatement_def or_null_def)
  have reads: "blank_source_to_null g1 = blank_source_to_null g2 \<longrightarrow>
         outcome (statement g1 i) = outcome (statement g2 i)
       \<and> outcome (statementsBySubject g1 identifier limit offset) =
           outcome (statementsBySubject g2 identifier limit offset)
       \<and> outcome (statementsByPredicate g1 p limit offset) =
           outcome (statementsByPredicate g2 p limit offset)
       \<and> outcome (paginatedStatements g1 limit offset) = outcome (paginatedStatements g2 limit offset)
       \<and> outcome (searchStatements g1 q) = outcome (searchStatements g2 q)"
    by (metis statement_blank statementsBySubject_blank statementsByPredicate_blank
        paginatedStatements_blank searchStatements_blank)
  have create: "createStatement g uuid now (input\<lparr>input_source_id := Some []\<rparr>) =
       createStatement g uuid now (input\<lparr>input_source_id := None\<rparr>)"
    by (simp add: createStatement_def or_null_def)
  show ?thesis using fmt reads create rest by blast
qed

theorem blank_source_id_reads_as_null_witness:
  "blank_source_to_null (store_after (ingest empty_store numbered_ids ''t'' ''a,likes,b'' (Some [])))
     = blank_source_to_null (store_after (ingest empty_store numbered_ids ''t'' ''a,likes,b'' None))
   \<and> map e_source_id (edges (store_after (ingest empty_store numbered_ids ''t'' ''a,likes,b'' (Some []))))
       = [Some []]
   \<and> map e_source_id (edges (store_after (ingest empty_store numbered_ids ''t'' ''a,likes,b'' None)))
       = [None]
   \<and> outcome (statement (store_after (ingest empty_store numbered_ids ''t'' ''a,likes,b'' (Some [])))
               (numbered_ids 0))
       = outcome (statement (store_after (ingest empty_store numbered_ids ''t'' ''a,likes,b'' None))
               (numbered_ids 0))"
proof -
  have acc: "accepted_lines ''a,likes,b'' = [(''a'', ''likes'', ''b'')]"
    by (simp add: accepted_lines_def parse_line_def trim_def is_space_def map_filter_simps)
  have st: "\<And>src. store_after (ingest empty_store numbered_ids ''t'' ''a,likes,b'' src) =
        \<lparr>nodes = [''a'', ''b''],
         edges = [\<lparr>e_id = numbered_ids 0, e_subject = ''a'', e_target = ''b'', e_predicate = ''likes'',
                   e_object_value = ''b'', e_source_id = src, e_timestamp = ''t'',
                   e_created_at = ''t''\<rparr>]\<rparr>"
    by (simp add: ingest_unfold acc Let_def accept_def ingest_start_def empty_store_def
        run_merge_create_def merge_node_def ingested_edge_def)
  have same: "blank_source_to_null (store_after (ingest empty_store numbered_ids ''t'' ''a,likes,b'' (Some [])))
     = blank_source_to_null (store_after (ingest empty_store numbered_ids ''t'' ''a,likes,b'' None))"
    by (simp add: st blank_source_to_null_def or_null_def)
  show ?thesis
    using same blank_source_id_reads_as_null
      [of _ "store_after (ingest empty_store numbered_ids ''t'' ''a,likes,b'' (Some []))"
          "store_after (ingest empty_store numbered_ids ''t'' ''a,likes,b'' None)" "numbered_ids 0"]
    by (simp add: st)
qed

subsection \<open>One node for each value\<close>

lemma createStatement_nodes:
  "nodes (store_after (createStatement g uuid now input)) =
   merge_node (JSON_stringify (input_object_value input))
     (merge_node (input_subject_identifier input) (nodes g))"
  by (simp add: createStatement_store run_merge_create_nodes created_edge_def)

lemma ingest_nodes_distinct:
  "distinct (nodes g) \<Longrightarrow> distinct (nodes (store_after (ingest g uuid now data sourceName)))"
  using fold_accept_distinct [of "ingest_start g" uuid sourceName now "accepted_lines data"]
  by (simp add: ingest_unfold Let_def ingest_start_def)

lemma ingest_node_set:
  "set (nodes (store_after (ingest g uuid now data sourceName))) =
   set (nodes g) \<union> (\<Union>(s, p, ob) \<in> set (accepted_lines data). {s, ob})"
  using fold_accept_nodes [of uuid sourceName now "accepted_lines data" "ingest_start g"]
  by (simp add: ingest_unfold Let_def ingest_start_def)

lemma deleteStatement_nodes: "nodes (store_after (deleteStatement g i)) = nodes g"
  by (simp add: deleteStatement_def run_delete_def Let_def)

lemma apply_operation_distinct:
  "distinct (nodes g) \<Longrightarrow> distinct (nodes (apply_operation g op))"
  by (cases op)
    (simp_all add: createStatement_nodes merge_node_distinct ingest_nodes_distinct
      deleteStatement_nodes)

lemma apply_operation_node_set:
  "set (nodes (apply_operation g op)) = set (nodes g) \<union> referenced op"
  by (cases op)
    (auto simp: createStatement_nodes merge_node_set ingest_node_set deleteStatement_nodes)

lemma foldl_apply_distinct:
  "distinct (nodes g) \<Longrightarrow> distinct (nodes (foldl apply_operation g ops))"
  by (induction ops arbitrary: g) (simp_all add: apply_operation_distinct)

lemma foldl_apply_node_set:
  "set (nodes (foldl apply_operation g ops)) = set (nodes g) \<union> \<Union> (referenced ` set ops)"
  by (induction ops arbitrary: g) (auto simp: apply_operation_node_set)

lemma count_list_absent: "s \<notin> set ns \<Longrightarrow> count_list ns s = 0"
  by (simp add: count_list_0_iff)

lemma count_merge_node:
  "count_list (merge_node v ns) s =
     (if s \<in> set ns then count_list ns s else if s = v then 1 else 0)"
  by (auto simp: merge_node_def count_list_absent)

lemma count_run_merge_create:
  "count_list (nodes (run_merge_create g e)) s =
     (if s \<in> set (nodes g) then count_list (nodes g) s
      else if s = e_subject e \<or> s = e_target e then 1 else 0)"
  by (auto simp: run_merge_create_nodes count_merge_node merge_node_set)



lemma count_fold_accept:
  "count_list (nodes (cur_graph (fold (accept uuid sourceName now) ts st))) s =
     (if s \<in> set (nodes (cur_graph st)) then count_list (nodes (cur_graph st)) s
      else if s \<in> (\<Union>(a, p, ob) \<in> set ts. {a, ob}) then 1 else 0)"
proof (induction ts arbitrary: st)
  case Nil
  show ?case by (simp add: count_list_absent)
next
  case (Cons t ts)
  obtain a p ob where t: "t = (a, p, ob)" by (cases t) auto
  let ?st = "accept uuid sourceName now t st"
  let ?U = "\<Union>(a, p, ob) \<in> set ts. {a, ob}"
  have ns: "set (nodes (cur_graph ?st)) = insert ob (insert a (set (nodes (cur_graph st))))"
    by (simp add: accept_def run_merge_create_node_set ingested_edge_def t)
  have c: "count_list (nodes (cur_graph ?st)) s =
     (if s \<in> set (nodes (cur_graph st)) then count_list (nodes (cur_graph st)) s
      else if s = a \<or> s = ob then 1 else 0)"
    by (simp add: accept_def count_run_merge_create ingested_edge_def t)
  have U: "(\<Union>(a, p, ob) \<in> set (t # ts). {a, ob}) = insert a (insert ob ?U)"
    by (auto simp: t)
  have step: "count_list (nodes (cur_graph (fold (accept uuid sourceName now) ts ?st))) s =
     (if s \<in> set (nodes (cur_graph ?st)) then count_list (nodes (cur_graph ?st)) s
      else if s \<in> ?U then 1 else 0)"
    by (rule Cons.IH)
  have "fold (accept uuid sourceName now) (t # ts) st = fold (accept uuid sourceName now) ts ?st"
    by simp
  then show ?case
    unfolding U by (simp only: step ns c) auto
qed


lemma count_apply_operation:
  "count_list (nodes (apply_operation g op)) s =
     (if s \<in> set (nodes g) then count_list (nodes g) s
      else if s \<in> referenced op then 1 else 0)"
proof (cases op)
  case (CreateStatement uuid now input)
  then show ?thesis
    by (simp add: createStatement_store count_run_merge_create created_edge_def)
next
  case (Ingest uuid now data sourceName)
  have "store_after (ingest g uuid now data sourceName) =
        cur_graph (fold (accept uuid sourceName now) (accepted_lines data) (ingest_start g))"
    by (simp add: ingest_unfold Let_def)
  moreover have "cur_graph (ingest_start g) = g"
    by (simp add: ingest_start_def)
  ultimately show ?thesis
    using count_fold_accept [of uuid sourceName now "accepted_lines data" "ingest_start g" s]
    by (simp only: Ingest apply_operation.simps referenced.simps)
next
  case (DeleteStatement i)
  then show ?thesis
    by (simp add: deleteStatement_nodes count_list_absent)
qed

lemma count_foldl_apply:
  "count_list (nodes (foldl apply_operation g ops)) s =
     (if s \<in> set (nodes g) then count_list (nodes g) s
      else if s \<in> \<Union> (referenced ` set ops) then 1 else 0)"
proof (induction ops arbitrary: g)
  case Nil
  show ?case by (simp add: count_list_absent)
next
  case (Cons op ops)
  let ?g = "apply_operation g op"
  have step: "count_list (nodes (foldl apply_operation ?g ops)) s =
     (if s \<in> set (nodes ?g) then count_list (nodes ?g) s
      else if s \<in> \<Union> (referenced ` set ops) then 1 else 0)"
    by (rule Cons)
  have U: "\<Union> (referenced ` set (op # ops)) = referenced op \<union> \<Union> (referenced ` set ops)"
    by simp
  have "foldl apply_operation g (op # ops) = foldl apply_operation ?g ops"
    by simp
  then show ?case
    unfolding U by (simp only: step apply_operation_node_set count_apply_operation) auto
qed

text \<open>
  C3.  Run any sequence of \<^verbatim>\<open>createStatement\<close>, \<^verbatim>\<open>ingest\<close> and
  \<^verbatim>\<open>deleteStatement\<close> calls.  A value that had nodes before has as many afterwards:
  no call adds a node for it.  A value that had none has exactly one afterwards if one
  of the calls referred to it as a subject or as an object (for \<^verbatim>\<open>createStatement\<close>
  the object is referred to by its JSON-serialized form, for \<^verbatim>\<open>ingest\<close> by the
  trimmed field of an accepted line), and none otherwise.  So from a store in which no
  value has two Identifier nodes (the empty store, for one), no value ever has two, and
  every value referred to has exactly one.
\<close>

theorem identifier_merge_idempotent:
  "count_list (nodes (foldl apply_operation g ops)) s =
     (if s \<in> set (nodes g) then count_list (nodes g) s
      else if s \<in> \<Union> (referenced ` set ops) then 1 else 0)
   \<and> (distinct (nodes g) \<longrightarrow>
         distinct (nodes (foldl apply_operation g ops))
       \<and> (\<forall>v. count_list (nodes (foldl apply_operation g ops)) v \<le> 1)
       \<and> (\<forall>v \<in> \<Union> (referenced ` set ops). count_list (nodes (foldl apply_operation g ops)) v = 1))"
proof (intro conjI impI)
  show "count_list (nodes (foldl apply_operation g ops)) s =
     (if s \<in> set (nodes g) then count_list (nodes g) s
      else if s \<in> \<Union> (referenced ` set ops) then 1 else 0)"
    by (rule count_foldl_apply)
next
  let ?ns = "nodes (foldl apply_operation g ops)"
  assume "distinct (nodes g)"
  then show d: "distinct ?ns"
    by (rule foldl_apply_distinct)
  have one: "\<And>v. v \<in> set ?ns \<Longrightarrow> count_list ?ns v = 1"
    using d by (rule count_list_distinct)
  show "\<forall>v. count_list ?ns v \<le> 1"
  proof
    fix v
    show "count_list ?ns v \<le> 1"
      using one [of v] count_list_0_iff [of ?ns v] by (cases "v \<in> set ?ns") simp_all
  qed
  show "\<forall>v \<in> \<Union> (referenced ` set ops). count_list ?ns v = 1"
    using one by (simp add: foldl_apply_node_set)
qed

theorem identifier_merge_idempotent_witness:
  "distinct (nodes empty_store)
   \<and> count_list
       (nodes (foldl apply_operation empty_store
                 [CreateStatement ''id-1'' ''t1'' alice_knows_bob,
                  CreateStatement ''id-2'' ''t2'' alice_knows_bob,
                  Ingest numbered_ids ''t3'' ''alice,likes,carol'' None,
                  DeleteStatement ''id-1''])) ''alice'' = 1
   \<and> length (edges (foldl apply_operation empty_store
                 [CreateStatement ''id-1'' ''t1'' alice_knows_bob,
                  CreateStatement ''id-2'' ''t2'' alice_knows_bob,
                  Ingest numbered_ids ''t3'' ''alice,likes,carol'' None])) = 3"
proof -
  let ?ops = "[CreateStatement ''id-1'' ''t1'' alice_knows_bob,
               CreateStatement ''id-2'' ''t2'' alice_knows_bob,
               Ingest numbered_ids ''t3'' ''alice,likes,carol'' None,
               DeleteStatement ''id-1'']"
  have d: "distinct (nodes empty_store)"
    by (simp add: empty_store_def)
  have r: "''alice'' \<in> \<Union> (referenced ` set ?ops)"
    by (simp add: alice_knows_bob_def)
  have acc: "accepted_lines ''alice,likes,carol'' = [(''alice'', ''likes'', ''carol'')]"
    by (simp add: accepted_lines_def parse_line_def trim_def is_space_def map_filter_simps)
  have three: "length (edges (foldl apply_operation empty_store
                 [CreateStatement ''id-1'' ''t1'' alice_knows_bob,
                  CreateStatement ''id-2'' ''t2'' alice_knows_bob,
                  Ingest numbered_ids ''t3'' ''alice,likes,carol'' None])) = 3"
    by (simp add: createStatement_store run_merge_create_def merge_node_def created_edge_def
        alice_knows_bob_def empty_store_def Let_def quote_string_def escape_char_def
        ingest_unfold acc accept_def ingest_start_def ingested_edge_def)
  from identifier_merge_idempotent [of empty_store ?ops "''alice''"] d r
  have "count_list (nodes (foldl apply_operation empty_store ?ops)) ''alice'' = 1"
    by blast
  with d three show ?thesis by blast
qed

end
